theory Spec2Isabelle
  imports Complex_Main "HOL-Library.Multiset" "HOL-Library.Sublist"
begin

section \<open>Shared types (packages/shared/src/types.ts)\<close>

datatype DailyStatStatus = status_ok | status_private | status_not_found | status_error

section \<open>Backfill job: row and bucket types (apps/server/src/scripts/backfill-achievements.ts)\<close>

text \<open>
  A \<open>Date\<close> is its time value in milliseconds; \<open>payload\<close> is an opaque JSON value, \<open>None\<close>
  when \<open>null\<close> or \<open>undefined\<close>. \<open>WeeklyAwardArgs\<close> is the argument object of the call of
  \<open>awardWeeklyAchievements\<close>, without the \<open>store\<close> handle; \<open>dailyAverageSeconds\<close> is a
  rational number, the exact quotient that the floating-point division approximates.
\<close>

record 'p WeeklyAwardArgs =
  userId :: int
  rangeKey :: string
  status :: DailyStatStatus
  totalSeconds :: int
  dailyAverageSeconds :: rat
  payload :: 'p
  fetchedAt :: int

record 'p DailyHistoryRow =
  user_id :: int
  date_key :: string
  total_seconds :: int
  status :: string
  fetched_at :: int
  payload :: "'p option"

record 'p WeekDayRecord =
  dateKey :: string
  totalSeconds :: int
  fetchedAt :: int
  payload :: "'p option"

record 'p WeeklyBucket =
  userId :: int
  isoWeekKey :: string
  rangeKey :: string
  fetchedAt :: int
  days :: "'p WeekDayRecord list"

section \<open>Server: users, stored stats and the repository (apps/server/src/repository.ts)\<close>

datatype StatsVisibility = visibility_everyone | visibility_friends | visibility_no_one

text \<open>
  The field \<open>id\<close> of the source is written \<open>id'\<close>. Only the fields that
  \<open>buildDailyLeaderboard\<close> reads are kept in \<open>UserConfig\<close>. A \<open>Date\<close> is its time value in
  milliseconds; an optional string is \<open>None\<close> when \<open>null\<close> or \<open>undefined\<close>.
\<close>

record Friend =
  id' :: int
  username :: string
  apiKey :: "string option"

record UserConfig =
  id' :: int
  wakawarsUsername :: string
  wakatimeTimezone :: "string option"
  friends :: "Friend list"

record UserRow =
  id' :: int
  wakawarsUsername :: string
  statsVisibility :: StatsVisibility
  isCompeting :: bool
  wakatimeTimezone :: "string option"

record DailyStatRecord =
  userId :: int
  username :: string
  totalSeconds :: int
  status :: DailyStatStatus
  error :: "string option"
  fetchedAt :: int

text \<open>
  The four reads of the repository that \<open>buildDailyLeaderboard\<close> awaits, as functions of the
  store's state at the time of the request.
\<close>

record UserRepository =
  getUsersByIds :: "int list \<Rightarrow> UserRow list"
  getIncomingFriendIds :: "int \<Rightarrow> int list \<Rightarrow> int list"
  getGroupPeerIds :: "int \<Rightarrow> int list"
  getDailyStats :: "int list \<Rightarrow> string \<Rightarrow> DailyStatRecord list"

text \<open>
  \<open>LeaderboardResponse\<close>; \<open>updatedAt\<close> is kept as the time value whose ISO rendering the
  source returns.
\<close>

record 'e LeaderboardResponse =
  date :: string
  updatedAt :: int
  entries :: "'e list"
  selfEntry :: "'e option"

text \<open>
  \<open>DailyStat\<close>: \<open>totalSeconds\<close> is a whole number of seconds (an integer column of the
  store); NaN and fractional values are outside this model.
\<close>

record DailyStat =
  username :: string
  honorTitle :: "string option"
  totalSeconds :: int
  status :: DailyStatStatus
  error :: "string option"

record LeaderboardEntry = DailyStat +
  rank :: "nat option"
  deltaSeconds :: int

section \<open>JavaScript array built-ins used by the ranking engine\<close>

text \<open>
  \<open>Array.prototype.sort\<close> with a comparator is stable (ECMAScript 2019). For a consistent
  comparator the stable sorted permutation is unique, so the engine's algorithm does not matter;
  it is modelled as insertion from the right, where an element moves in front of the first
  element it does not compare greater than. For an inconsistent comparator the order produced by
  a JavaScript engine is implementation-defined, and only the statements that do not assume
  consistency (permutation, status and seconds order) apply to this model alone.
\<close>

fun js_insert :: "('a \<Rightarrow> 'a \<Rightarrow> int) \<Rightarrow> 'a \<Rightarrow> 'a list \<Rightarrow> 'a list" where
  "js_insert cmp x [] = [x]"
| "js_insert cmp x (y # ys) = (if cmp x y \<le> 0 then x # y # ys else y # js_insert cmp x ys)"

fun js_sort :: "('a \<Rightarrow> 'a \<Rightarrow> int) \<Rightarrow> 'a list \<Rightarrow> 'a list" where
  "js_sort cmp [] = []"
| "js_sort cmp (x # xs) = js_insert cmp x (js_sort cmp xs)"

text \<open>\<open>Array.prototype.findIndex\<close>: the first index whose element satisfies \<open>P\<close>, or \<open>-1\<close>.\<close>

fun findIndex :: "('a \<Rightarrow> bool) \<Rightarrow> 'a list \<Rightarrow> int" where
  "findIndex P [] = - 1"
| "findIndex P (x # xs) =
     (if P x then 0 else (let i = findIndex P xs in if i < 0 then - 1 else i + 1))"

text \<open>
  \<open>Array.prototype.slice(start, end)\<close> on integer arguments: a negative bound counts from the
  end of the array, and both bounds are clamped to \<open>[0, length]\<close>.
\<close>

definition js_slice :: "'a list \<Rightarrow> int \<Rightarrow> int \<Rightarrow> 'a list" where
  "js_slice xs start end' =
     (let len = int (length xs);
          k = (if start < 0 then max (len + start) 0 else min start len);
          final = (if end' < 0 then max (len + end') 0 else min end' len)
      in take (nat (final - k)) (drop (nat k) xs))"

text \<open>
  \<open>String.prototype.localeCompare\<close> belongs to the JavaScript runtime and depends on its
  locale data, so the ranking functions take it as a parameter. A comparator is consistent when
  "compares less or equal" is total and transitive.
\<close>

definition consistent_comparator :: "('a \<Rightarrow> 'a \<Rightarrow> int) \<Rightarrow> bool" where
  "consistent_comparator cmp \<longleftrightarrow>
     (\<forall>a b. cmp a b \<le> 0 \<or> cmp b a \<le> 0) \<and>
     (\<forall>a b c. cmp a b \<le> 0 \<and> cmp b c \<le> 0 \<longrightarrow> cmp a c \<le> 0)"

text \<open>
  A concrete comparator for evaluating examples: lexicographic comparison of the character
  codes, which is what \<open>localeCompare\<close> gives on lower-case ASCII names.
\<close>

fun codeCompare :: "string \<Rightarrow> string \<Rightarrow> int" where
  "codeCompare [] [] = 0"
| "codeCompare [] (y # ys) = - 1"
| "codeCompare (x # xs) [] = 1"
| "codeCompare (x # xs) (y # ys) =
     (if (of_char x :: nat) < of_char y then - 1
      else if (of_char y :: nat) < of_char x then 1
      else codeCompare xs ys)"

section \<open>Ranking engine (packages/shared/src/leaderboard.ts)\<close>

definition statusOrder :: "DailyStatStatus \<Rightarrow> int" where
  "statusOrder s =
     (case s of status_ok \<Rightarrow> 0 | status_private \<Rightarrow> 1 | status_not_found \<Rightarrow> 2 | status_error \<Rightarrow> 3)"

text \<open>The comparator passed to \<open>sort\<close> in \<open>sortStats\<close>.\<close>

definition compareStats ::
  "(string \<Rightarrow> string \<Rightarrow> int) \<Rightarrow> 'a DailyStat_scheme \<Rightarrow> 'a DailyStat_scheme \<Rightarrow> int" where
  "compareStats localeCompare a b =
     (let statusDelta = statusOrder (status a) - statusOrder (status b) in
      if statusDelta \<noteq> 0 then statusDelta
      else let timeDelta = totalSeconds b - totalSeconds a in
        if timeDelta \<noteq> 0 then timeDelta
        else localeCompare (username a) (username b))"

definition sortStats ::
  "(string \<Rightarrow> string \<Rightarrow> int) \<Rightarrow> 'a DailyStat_scheme list \<Rightarrow> 'a DailyStat_scheme list" where
  "sortStats localeCompare stats = js_sort (compareStats localeCompare) stats"

text \<open>
  The callback of \<open>ordered.map\<close> in \<open>computeLeaderboard\<close>, with the two captured variables
  \<open>currentRank\<close> and \<open>lastSeconds\<close> and the running index passed explicitly.
\<close>

fun rankWalk ::
  "bool \<Rightarrow> int \<Rightarrow> nat \<Rightarrow> int option \<Rightarrow> nat \<Rightarrow> DailyStat list \<Rightarrow> LeaderboardEntry list" where
  "rankWalk shouldBreakAllZeroTies selfSeconds currentRank lastSeconds index [] = []"
| "rankWalk shouldBreakAllZeroTies selfSeconds currentRank lastSeconds index (entry # rest) =
     (let isRanked = (status entry = status_ok);
          (currentRank', lastSeconds') =
            (if isRanked then
               (if shouldBreakAllZeroTies then (index + 1, Some (totalSeconds entry))
                else if lastSeconds = None \<or> Some (totalSeconds entry) \<noteq> lastSeconds
                  then (index + 1, Some (totalSeconds entry))
                else (currentRank, lastSeconds))
             else (currentRank, lastSeconds))
      in DailyStat.extend entry
           (LeaderboardEntry.fields
              (if isRanked then Some currentRank' else None)
              (totalSeconds entry - selfSeconds))
         # rankWalk shouldBreakAllZeroTies selfSeconds currentRank' lastSeconds' (index + 1) rest)"

definition computeLeaderboard ::
  "(string \<Rightarrow> string \<Rightarrow> int) \<Rightarrow> DailyStat list \<Rightarrow> string \<Rightarrow> LeaderboardEntry list" where
  "computeLeaderboard localeCompare stats selfUsername =
     (let ordered = sortStats localeCompare stats;
          ranked = filter (\<lambda>entry. status entry = status_ok) ordered;
          shouldBreakAllZeroTies =
            (length ranked > 0 \<and> list_all (\<lambda>entry. totalSeconds entry = 0) ranked);
          selfEntry = find (\<lambda>entry. username entry = selfUsername) ordered;
          selfSeconds = (case selfEntry of None \<Rightarrow> 0 | Some e \<Rightarrow> totalSeconds e)
      in rankWalk shouldBreakAllZeroTies selfSeconds 0 None 0 ordered)"

record SliceOptions =
  podiumCount :: "int option"
  aroundCount :: "int option"

record 'a SliceResult =
  ordered :: "'a list"
  podium :: "'a list"
  nearMe :: "'a list"
  rest :: "'a list"
  selfEntry :: "'a option"
  leaderEntry :: "'a option"

definition sliceLeaderboard ::
  "(string \<Rightarrow> string \<Rightarrow> int) \<Rightarrow> 'a DailyStat_scheme list \<Rightarrow> string \<Rightarrow> SliceOptions
     \<Rightarrow> 'a DailyStat_scheme SliceResult" where
  "sliceLeaderboard localeCompare entries' selfUsername opts =
     (let podiumCount = (case podiumCount opts of None \<Rightarrow> 3 | Some n \<Rightarrow> n);
          aroundCount = (case aroundCount opts of None \<Rightarrow> 1 | Some n \<Rightarrow> n);
          ordered = sortStats localeCompare entries';
          ranked = filter (\<lambda>entry. status entry = status_ok) ordered;
          podium = js_slice ranked 0 podiumCount;
          selfIndex = findIndex (\<lambda>entry. username entry = selfUsername) ranked;
          selfEntry = (if selfIndex \<ge> 0 then Some (ranked ! nat selfIndex) else None);
          leaderEntry = (case ranked of [] \<Rightarrow> None | e # _ \<Rightarrow> Some e);
          nearMe =
            (if selfIndex \<ge> 0 then
               (let start = max 0 (selfIndex - aroundCount);
                    end' = min (int (length ranked)) (selfIndex + aroundCount + 1)
                in js_slice ranked start end')
             else []);
          picked = map username podium @ map username nearMe;
          rest = filter (\<lambda>entry. username entry \<notin> set picked) ordered
      in \<lparr>ordered = ordered, podium = podium, nearMe = nearMe, rest = rest,
          selfEntry = selfEntry, leaderEntry = leaderEntry\<rparr>)"

text \<open>
  The order the specification states for the output of \<open>computeLeaderboard\<close>, in its words:
  status rank ascending, then \<open>totalSeconds\<close> descending, then \<open>username\<close> ascending.
\<close>

definition spec_order ::
  "(string \<Rightarrow> string \<Rightarrow> int) \<Rightarrow> 'a DailyStat_scheme \<Rightarrow> 'a DailyStat_scheme \<Rightarrow> bool" where
  "spec_order localeCompare a b \<longleftrightarrow>
     statusOrder (status a) < statusOrder (status b) \<or>
     (statusOrder (status a) = statusOrder (status b) \<and>
        (totalSeconds a > totalSeconds b \<or>
         (totalSeconds a = totalSeconds b \<and> localeCompare (username a) (username b) \<le> 0)))"

text \<open>The inputs of the examples in the specification and in the test suite.\<close>

definition mkStat :: "string \<Rightarrow> int \<Rightarrow> DailyStatStatus \<Rightarrow> DailyStat" where
  "mkStat u t s = \<lparr>username = u, honorTitle = None, totalSeconds = t, status = s, error = None\<rparr>"

definition example_ties :: "DailyStat list" where
  "example_ties =
     [mkStat ''amy'' 1200 status_ok, mkStat ''ben'' 1200 status_ok, mkStat ''mo'' 900 status_ok]"

definition example_mixed :: "DailyStat list" where
  "example_mixed =
     [mkStat ''ben'' 1000 status_ok, mkStat ''amy'' 2000 status_ok,
      mkStat ''dena'' 0 status_private, mkStat ''mo'' 1500 status_ok]"

definition example_slice :: "DailyStat list" where
  "example_slice =
     [mkStat ''amy'' 4000 status_ok, mkStat ''ben'' 3500 status_ok,
      mkStat ''cora'' 3000 status_ok, mkStat ''mo'' 2500 status_ok,
      mkStat ''dena'' 2400 status_ok, mkStat ''eli'' 0 status_private]"

definition example_idle :: "DailyStat list" where
  "example_idle =
     [mkStat ''zoe'' 0 status_ok, mkStat ''amy'' 0 status_ok, mkStat ''mo'' 0 status_ok]"

text \<open>
  The self seconds as the specification words them: the \<open>totalSeconds\<close> of the entry of the
  unsorted input whose username is \<open>selfUsername\<close>, and 0 when there is none.
\<close>

definition spec_selfSeconds :: "DailyStat list \<Rightarrow> string \<Rightarrow> int" where
  "spec_selfSeconds stats selfUsername =
     (case find (\<lambda>entry. username entry = selfUsername) stats of
        None \<Rightarrow> 0 | Some e \<Rightarrow> totalSeconds e)"

section \<open>Achievement grants (apps/server/src/repository.ts and the in-memory repository)\<close>

datatype AchievementContextKind = daily | weekly

text \<open>
  \<open>AchievementGrantSummary\<close> is the row as \<open>listAchievementGrants\<close> returns it; a \<open>Date\<close> is
  its time value in milliseconds. The stored \<open>AchievementRecord\<close> adds \<open>metadata\<close>, where
  \<open>None\<close> is \<open>null\<close>. The input \<open>AchievementGrantRecord\<close> has an optional \<open>metadata\<close>:
  \<open>None\<close> is \<open>undefined\<close>, \<open>Some None\<close> is \<open>null\<close>.
\<close>

record AchievementGrantSummary =
  userId :: int
  achievementId :: string
  contextKind :: AchievementContextKind
  contextKey :: string
  awardedAt :: int

record 'm AchievementGrantRecord = AchievementGrantSummary +
  metadata :: "'m option option"

record 'm AchievementRecord = AchievementGrantSummary +
  metadata :: "'m option"

text \<open>The unique tuple of a grant.\<close>

definition grantKey ::
  "'a AchievementGrantSummary_scheme \<Rightarrow> int \<times> string \<times> AchievementContextKind \<times> string" where
  "grantKey e = (userId e, achievementId e, contextKind e, contextKey e)"

text \<open>
  \<open>grantAchievement\<close> of the in-memory repository (\<open>createMemoryRepository\<close>), with the
  captured array \<open>achievements\<close> passed in and returned.
\<close>

definition grantAchievement ::
  "'m AchievementRecord list \<Rightarrow> 'm AchievementGrantRecord \<Rightarrow> 'm AchievementRecord list" where
  "grantAchievement achievements input =
     (let existingIndex = findIndex (\<lambda>entry.
            userId entry = userId input \<and>
            achievementId entry = achievementId input \<and>
            contextKind entry = contextKind input \<and>
            contextKey entry = contextKey input) achievements;
          record = \<lparr>userId = userId input, achievementId = achievementId input,
                    contextKind = contextKind input, contextKey = contextKey input,
                    awardedAt = awardedAt input,
                    metadata = (case AchievementGrantRecord.metadata input of
                                  None \<Rightarrow> None | Some m \<Rightarrow> m)\<rparr>
      in if existingIndex \<ge> 0
         then map (\<lambda>(index, entry). if int index = existingIndex then record else entry)
                (enumerate 0 achievements)
         else achievements @ [record])"

text \<open>
  \<open>grantAchievement\<close> of the Prisma repository is one \<open>upsert\<close> on the table
  \<open>ww_user_achievement\<close>, addressed by its unique index on
  \<open>(user_id, achievement_key, context_kind, context_key)\<close>. The table is a map from that
  tuple to \<open>(awarded_at, metadata)\<close>; \<open>upsert\<close> creates the row when the \<open>where\<close> tuple has
  none and updates it otherwise, and an \<open>undefined\<close> field of \<open>update\<close> leaves the column as
  it is.
\<close>

definition prisma_grantAchievement ::
  "(int \<times> string \<times> AchievementContextKind \<times> string \<rightharpoonup> int \<times> 'm option)
     \<Rightarrow> 'm AchievementGrantRecord
     \<Rightarrow> (int \<times> string \<times> AchievementContextKind \<times> string \<rightharpoonup> int \<times> 'm option)" where
  "prisma_grantAchievement ww_user_achievement input =
     (let where' = (userId input, achievementId input, contextKind input, contextKey input) in
      case ww_user_achievement where' of
        None \<Rightarrow>
          ww_user_achievement(where' \<mapsto>
            (awardedAt input,
             case AchievementGrantRecord.metadata input of None \<Rightarrow> None | Some m \<Rightarrow> m))
      | Some (awarded_at, stored_metadata) \<Rightarrow>
          ww_user_achievement(where' \<mapsto>
            (awardedAt input,
             case AchievementGrantRecord.metadata input of
               None \<Rightarrow> stored_metadata | Some m \<Rightarrow> m)))"

definition example_grant :: "string AchievementGrantRecord" where
  "example_grant =
     \<lparr>userId = 1, achievementId = ''workweek-warrior-40h'', contextKind = weekly,
      contextKey = ''2024-W05'', awardedAt = 1000,
      AchievementGrantRecord.metadata = Some (Some ''first'')\<rparr>"

definition example_other_grant :: "string AchievementGrantRecord" where
  "example_other_grant =
     \<lparr>userId = 1, achievementId = ''workweek-warrior-40h'', contextKind = weekly,
      contextKey = ''2024-W06'', awardedAt = 900,
      AchievementGrantRecord.metadata = None\<rparr>"

section \<open>JavaScript built-ins: Date (UTC), Map, number to string\<close>

text \<open>
  A \<open>Date\<close> is its time value, the milliseconds since 1970-01-01T00:00:00Z. The functions
  below are ECMAScript's \<open>DayFromYear\<close>, \<open>MakeDay\<close> and \<open>Date.UTC\<close> (which maps the
  years 0 to 99 to 1900 to 1999), and the UTC getters. Every date handled here has a year of at
  most four digits, so the time value never leaves the range of \<open>TimeClip\<close> and the invalid
  date does not arise from arithmetic.
\<close>

definition msPerDay :: int where
  "msPerDay = 86400000"

definition DayFromYear :: "int \<Rightarrow> int" where
  "DayFromYear y = 365 * (y - 1970) + (y - 1969) div 4 - (y - 1901) div 100 + (y - 1601) div 400"

definition InLeapYear :: "int \<Rightarrow> bool" where
  "InLeapYear y \<longleftrightarrow> y mod 4 = 0 \<and> (y mod 100 \<noteq> 0 \<or> y mod 400 = 0)"

definition daysBeforeMonth :: "bool \<Rightarrow> int \<Rightarrow> int" where
  "daysBeforeMonth leap m =
     (let base = [0, 31, 59, 90, 120, 151, 181, 212, 243, 273, 304, 334] ! nat m
      in if leap \<and> 2 \<le> m then base + 1 else base)"

definition MakeDay :: "int \<Rightarrow> int \<Rightarrow> int \<Rightarrow> int" where
  "MakeDay year month date' =
     (let ym = year + month div 12; mn = month mod 12
      in DayFromYear ym + daysBeforeMonth (InLeapYear ym) mn + date' - 1)"

definition Date_UTC :: "int \<Rightarrow> int \<Rightarrow> int \<Rightarrow> int" where
  "Date_UTC year month date' =
     (let yr = (if 0 \<le> year \<and> year \<le> 99 then 1900 + year else year)
      in MakeDay yr month date' * msPerDay)"

text \<open>
  The civil date \<open>(year, month 0..11, day of month)\<close> of a day number; \<open>YearFromTime\<close>,
  \<open>MonthFromTime\<close> and \<open>DateFromTime\<close> of ECMAScript, computed over 400-year eras.
\<close>

definition civilFromDay :: "int \<Rightarrow> int \<times> int \<times> int" where
  "civilFromDay d =
     (let z = d + 719468;
          era = z div 146097;
          doe = z mod 146097;
          yoe = (doe - doe div 1460 + doe div 36524 - doe div 146096) div 365;
          doy = doe - (365 * yoe + yoe div 4 - yoe div 100);
          mp = (5 * doy + 2) div 153;
          dom = doy - (153 * mp + 2) div 5 + 1;
          month = (if mp < 10 then mp + 3 else mp - 9);
          year = yoe + era * 400 + (if month \<le> 2 then 1 else 0)
      in (year, month - 1, dom))"

definition getUTCFullYear :: "int \<Rightarrow> int" where
  "getUTCFullYear t = fst (civilFromDay (t div msPerDay))"

definition getUTCMonth :: "int \<Rightarrow> int" where
  "getUTCMonth t = fst (snd (civilFromDay (t div msPerDay)))"

definition getUTCDate :: "int \<Rightarrow> int" where
  "getUTCDate t = snd (snd (civilFromDay (t div msPerDay)))"

definition getUTCDay :: "int \<Rightarrow> int" where
  "getUTCDay t = (t div msPerDay + 4) mod 7"

definition setUTCDate :: "int \<Rightarrow> int \<Rightarrow> int" where
  "setUTCDate t date' =
     MakeDay (getUTCFullYear t) (getUTCMonth t) date' * msPerDay + t mod msPerDay"

text \<open>\<open>String(n)\<close> for an integer \<open>n\<close> below \<open>10^21\<close> in magnitude: its decimal digits.\<close>

definition digitChar :: "nat \<Rightarrow> char" where
  "digitChar n = ''0123456789'' ! n"

function decimalNat :: "nat \<Rightarrow> string" where
  "decimalNat n = (if n < 10 then [digitChar n] else decimalNat (n div 10) @ [digitChar (n mod 10)])"
  by pat_completeness auto
termination
  by (relation "measure id") auto

declare decimalNat.simps [simp del]

definition js_String :: "int \<Rightarrow> string" where
  "js_String n = (if n < 0 then CHR ''-'' # decimalNat (nat (- n)) else decimalNat (nat n))"

definition padStart :: "string \<Rightarrow> nat \<Rightarrow> char \<Rightarrow> string" where
  "padStart s targetLength fill = replicate (targetLength - length s) fill @ s"

definition isDigit :: "char \<Rightarrow> bool" where
  "isDigit c \<longleftrightarrow> c \<in> set ''0123456789''"

text \<open>\<open>Number(s)\<close> for a string of decimal digits.\<close>

definition digitsToInt :: "string \<Rightarrow> int" where
  "digitsToInt s = foldl (\<lambda>acc c. 10 * acc + (int (of_char c) - 48)) 0 s"

text \<open>
  A \<open>Map\<close> keeps its keys in insertion order: an association list with distinct keys, where
  \<open>set\<close> overwrites the value of a present key in place and appends an absent one.
\<close>

fun map_set :: "('k \<times> 'v) list \<Rightarrow> 'k \<Rightarrow> 'v \<Rightarrow> ('k \<times> 'v) list" where
  "map_set [] k v = [(k, v)]"
| "map_set ((k', v') # m) k v = (if k' = k then (k, v) # m else (k', v') # map_set m k v)"

definition map_get :: "('k \<times> 'v) list \<Rightarrow> 'k \<Rightarrow> 'v option" where
  "map_get m k = map_of m k"

text \<open>\<open>new Set(xs)\<close> read back with \<open>Array.from\<close>: the first occurrences, in order.\<close>

fun uniq :: "'a list \<Rightarrow> 'a list" where
  "uniq [] = []"
| "uniq (x # xs) = x # filter (\<lambda>y. y \<noteq> x) (uniq xs)"

text \<open>
  A JavaScript number as far as \<open>formatDuration\<close> tells values apart: a finite number is the
  rational it denotes (\<open>-0\<close> is \<open>Finite 0\<close>), and the three values that are not finite. The
  rounding of floating-point arithmetic is not modelled: quotients are exact.
\<close>

datatype js_number = Finite rat | NaN | PosInfinity | NegInfinity

section \<open>Honor titles (apps/server/src/honor-titles.ts)\<close>

definition WORKWEEK_WARRIOR_40H :: string where
  "WORKWEEK_WARRIOR_40H = ''workweek-warrior-40h''"

definition WEEK_MS :: int where
  "WEEK_MS = 7 * 24 * 60 * 60 * 1000"

definition TITLE_BY_ACHIEVEMENT_ID :: "(string \<times> string) list" where
  "TITLE_BY_ACHIEVEMENT_ID =
     [(''quick-boot-4h'', ''Daybreak Sprinter''),
      (''focus-reactor-6h'', ''Focus Reactor''),
      (''streak-forge-8h'', ''Green Wall Initiate''),
      (''overclocked-core-10h'', ''Overclock Core''),
      (''merge-mountain-12h'', ''Merge Mountain Slayer''),
      (''night-shift-14h'', ''Night Shift Sentinel''),
      (''legendary-commit-16h'', ''Commit Overlord''),
      (''boss-raid-20h'', ''Boss Raider''),
      (''weekend-warrior-8h'', ''Weekend Warrior''),
      (''weekend-overdrive-12h'', ''Weekend Overdrive''),
      (''solo-day-8h'', ''Solo Blade''),
      (''switchblade-day-8h'', ''Switchblade''),
      (''mono-language-day-8h'', ''Mono Tongue''),
      (''language-juggler-day-8h'', ''Language Juggler''),
      (''deep-focus-day-8h'', ''Deep Focus Diver''),
      (''workweek-warrior-40h'', ''Workweek Warrior''),
      (''ship-it-60h'', ''Release Captain''),
      (''green-wall-80h'', ''Green Wall Commander''),
      (''graph-overflow-100h'', ''Graph Breaker''),
      (''matrix-120h'', ''Matrix Sovereign''),
      (''mono-stack-80h'', ''Solo Stack Hero''),
      (''mono-stack-100h'', ''Solo Stack Mythic''),
      (''polyglot-stack-80h'', ''Polyglot General''),
      (''language-hydra-80h'', ''Language Hydra''),
      (''language-spectrum-80h'', ''Spectrum Master''),
      (''editor-arsenal-80h'', ''Editor Arsenal''),
      (''project-monolith-80h'', ''Monolith Architect''),
      (''project-nomad-80h'', ''Project Nomad''),
      (''seven-sunrise-week'', ''Seven Sunrises''),
      (''iron-week-4h'', ''Iron Week''),
      (''marathon-pace-8h'', ''Marathon Coder''),
      (''ultra-pace-10h'', ''Turbo Engine'')]"

definition ACHIEVEMENT_PRIORITY :: "(string \<times> int) list" where
  "ACHIEVEMENT_PRIORITY =
     [(''quick-boot-4h'', 1),
      (''focus-reactor-6h'', 2),
      (''streak-forge-8h'', 3),
      (''overclocked-core-10h'', 4),
      (''merge-mountain-12h'', 5),
      (''night-shift-14h'', 6),
      (''legendary-commit-16h'', 8),
      (''boss-raid-20h'', 10),
      (''weekend-warrior-8h'', 2),
      (''weekend-overdrive-12h'', 4),
      (''solo-day-8h'', 3),
      (''switchblade-day-8h'', 4),
      (''mono-language-day-8h'', 4),
      (''language-juggler-day-8h'', 5),
      (''deep-focus-day-8h'', 4),
      (''workweek-warrior-40h'', 5),
      (''ship-it-60h'', 6),
      (''green-wall-80h'', 7),
      (''graph-overflow-100h'', 9),
      (''matrix-120h'', 10),
      (''mono-stack-80h'', 7),
      (''mono-stack-100h'', 9),
      (''polyglot-stack-80h'', 7),
      (''language-hydra-80h'', 8),
      (''language-spectrum-80h'', 9),
      (''editor-arsenal-80h'', 8),
      (''project-monolith-80h'', 7),
      (''project-nomad-80h'', 7),
      (''seven-sunrise-week'', 4),
      (''iron-week-4h'', 6),
      (''marathon-pace-8h'', 7),
      (''ultra-pace-10h'', 8)]"

text \<open>
  The lookups \<open>TITLE_BY_ACHIEVEMENT_ID[id] ?? "Achievement Hunter"\<close> and
  \<open>ACHIEVEMENT_PRIORITY[id] ?? 0\<close>, for the ids that grants carry (the ids of the catalog,
  none of which names a property of \<open>Object.prototype\<close>).
\<close>

definition titleOf :: "string \<Rightarrow> string" where
  "titleOf achievementId' =
     (case map_of TITLE_BY_ACHIEVEMENT_ID achievementId' of
        None \<Rightarrow> ''Achievement Hunter'' | Some t \<Rightarrow> t)"

definition priorityOf :: "string \<Rightarrow> int" where
  "priorityOf achievementId' =
     (case map_of ACHIEVEMENT_PRIORITY achievementId' of None \<Rightarrow> 0 | Some p \<Rightarrow> p)"

definition getIsoWeekStartMs :: "int \<Rightarrow> int \<Rightarrow> int option" where
  "getIsoWeekStartMs year week =
     (if week < 1 \<or> week > 53 then None
      else
        (let jan4 = Date_UTC year 0 4;
             jan4Weekday = (if getUTCDay jan4 = 0 then 7 else getUTCDay jan4);
             weekOneMondayMs = jan4 - (jan4Weekday - 1) * 86400000
         in Some (weekOneMondayMs + (week - 1) * WEEK_MS)))"

text \<open>
  The regular expression \<open>/(\d{4})-W(\d{2})$/\<close> has a fixed width of eight characters and
  is anchored at the end, so it can only match the last eight characters of the key.
\<close>

definition parseIsoWeekFromContextKey :: "string \<Rightarrow> int option" where
  "parseIsoWeekFromContextKey contextKey' =
     (let n = length contextKey'; m = drop (n - 8) contextKey' in
      if n \<ge> 8 \<and> list_all isDigit (take 4 m) \<and> m ! 4 = CHR ''-'' \<and> m ! 5 = CHR ''W'' \<and>
         list_all isDigit (drop 6 m)
      then getIsoWeekStartMs (digitsToInt (take 4 m)) (digitsToInt (drop 6 m))
      else None)"

text \<open>The callback of \<open>weekStarts.forEach\<close>, with \<open>longest\<close>, \<open>current\<close>, \<open>previous\<close>.\<close>

fun streakWalk :: "int \<Rightarrow> int \<Rightarrow> int option \<Rightarrow> int list \<Rightarrow> int" where
  "streakWalk longest current previous [] = longest"
| "streakWalk longest current previous (weekStart # weekStarts) =
     (let current' =
            (case previous of
               None \<Rightarrow> 1
             | Some p \<Rightarrow> if weekStart - p = WEEK_MS then current + 1 else 1)
      in streakWalk (max longest current') current' (Some weekStart) weekStarts)"

definition weekStartsOf :: "string list \<Rightarrow> int list" where
  "weekStartsOf contextKeys =
     js_sort (\<lambda>a b. a - b)
       (uniq (map the (filter (\<lambda>value. value \<noteq> None)
          (map parseIsoWeekFromContextKey contextKeys))))"

definition getLongestConsecutiveWeekStreak :: "string list \<Rightarrow> int" where
  "getLongestConsecutiveWeekStreak contextKeys = streakWalk 0 0 None (weekStartsOf contextKeys)"

definition getCount :: "(string \<times> int) list \<Rightarrow> string \<Rightarrow> int" where
  "getCount counts achievementId' =
     (case map_get counts achievementId' of None \<Rightarrow> 0 | Some c \<Rightarrow> c)"

definition resolveComboHonorTitle :: "(string \<times> int) list \<Rightarrow> string list \<Rightarrow> string option" where
  "resolveComboHonorTitle achievementCounts weeklyFortyContextKeys =
     (let weeklyFortyStreak = getLongestConsecutiveWeekStreak weeklyFortyContextKeys in
      if weeklyFortyStreak \<ge> 8 then Some ''Emperor of Weeks''
      else if weeklyFortyStreak \<ge> 4 then Some ''Sultan of Weeks''
      else if getCount achievementCounts ''matrix-120h'' \<ge> 2 then Some ''Matrix Deity''
      else if getCount achievementCounts ''graph-overflow-100h'' \<ge> 2 then Some ''Overflow Breaker''
      else if getCount achievementCounts ''green-wall-80h'' \<ge> 4 then Some ''Eternal Green Wall''
      else if getCount achievementCounts ''language-spectrum-80h'' \<ge> 1 \<and>
              getCount achievementCounts ''editor-arsenal-80h'' \<ge> 1
        then Some ''Master of All Trades''
      else if getCount achievementCounts ''mono-stack-100h'' \<ge> 1 \<and>
              getCount achievementCounts ''project-monolith-80h'' \<ge> 1
        then Some ''Solo Stack Titan''
      else if getCount achievementCounts ''ultra-pace-10h'' \<ge> 2 \<and>
              getCount achievementCounts ''iron-week-4h'' \<ge> 2
        then Some ''Unstoppable Machine''
      else None)"

text \<open>
  The objects \<open>{achievementId, count, title, priority}\<close> of \<open>resolveTopAchievementTitle\<close>
  are tuples in that order; \<open>compareRanked\<close> is the comparator passed to \<open>sort\<close>.
\<close>

definition compareRanked ::
  "(string \<Rightarrow> string \<Rightarrow> int) \<Rightarrow> string \<times> int \<times> string \<times> int \<Rightarrow> string \<times> int \<times> string \<times> int
     \<Rightarrow> int" where
  "compareRanked localeCompare a b =
     (case a of (a_achievementId, a_count, a_title, a_priority) \<Rightarrow>
      case b of (b_achievementId, b_count, b_title, b_priority) \<Rightarrow>
        if a_priority \<noteq> b_priority then b_priority - a_priority
        else if a_count \<noteq> b_count then b_count - a_count
        else localeCompare a_achievementId b_achievementId)"

definition resolveTopAchievementTitle ::
  "(string \<Rightarrow> string \<Rightarrow> int) \<Rightarrow> (string \<times> int) list \<Rightarrow> string option" where
  "resolveTopAchievementTitle localeCompare achievementCounts =
     (let ranked = js_sort (compareRanked localeCompare)
            (map (\<lambda>(achievementId', count').
                    (achievementId', count', titleOf achievementId', priorityOf achievementId'))
               (filter (\<lambda>(achievementId', count'). count' > 0) achievementCounts))
      in case ranked of [] \<Rightarrow> None | (achievementId', count', title, priority) # _ \<Rightarrow> Some title)"

definition resolveHonorTitle ::
  "(string \<Rightarrow> string \<Rightarrow> int) \<Rightarrow> (string \<times> int) list \<Rightarrow> string list \<Rightarrow> string option" where
  "resolveHonorTitle localeCompare achievementCounts weeklyFortyContextKeys =
     (case resolveComboHonorTitle achievementCounts weeklyFortyContextKeys of
        Some comboTitle \<Rightarrow>
          if comboTitle \<noteq> [] then Some comboTitle
          else resolveTopAchievementTitle localeCompare achievementCounts
      | None \<Rightarrow> resolveTopAchievementTitle localeCompare achievementCounts)"

text \<open>
  The callback of \<open>grants.forEach\<close> in \<open>resolveHonorTitlesByUserId\<close>, on the two maps
  \<open>countsByUserId\<close> and \<open>weeklyFortyContextKeysByUserId\<close>.
\<close>

definition collectGrant ::
  "(int \<times> (string \<times> int) list) list \<times> (int \<times> string list) list
     \<Rightarrow> 'a AchievementGrantSummary_scheme
     \<Rightarrow> (int \<times> (string \<times> int) list) list \<times> (int \<times> string list) list" where
  "collectGrant maps grant =
     (case maps of (countsByUserId, weeklyFortyContextKeysByUserId) \<Rightarrow>
      let userCounts = (case map_get countsByUserId (userId grant) of None \<Rightarrow> [] | Some m \<Rightarrow> m);
          userCounts' = map_set userCounts (achievementId grant)
            ((case map_get userCounts (achievementId grant) of None \<Rightarrow> 0 | Some c \<Rightarrow> c) + 1);
          countsByUserId' = map_set countsByUserId (userId grant) userCounts'
      in if achievementId grant = WORKWEEK_WARRIOR_40H \<and> contextKind grant = weekly
         then
           (let contextKeys =
                  (case map_get weeklyFortyContextKeysByUserId (userId grant) of
                     None \<Rightarrow> [] | Some ks \<Rightarrow> ks)
            in (countsByUserId',
                map_set weeklyFortyContextKeysByUserId (userId grant)
                  (contextKeys @ [contextKey grant])))
         else (countsByUserId', weeklyFortyContextKeysByUserId))"

definition resolveHonorTitlesByUserId ::
  "(string \<Rightarrow> string \<Rightarrow> int) \<Rightarrow> int list \<Rightarrow> 'a AchievementGrantSummary_scheme list
     \<Rightarrow> (int \<times> string option) list" where
  "resolveHonorTitlesByUserId localeCompare userIds grants =
     (case foldl collectGrant ([], []) grants of
        (countsByUserId, weeklyFortyContextKeysByUserId) \<Rightarrow>
          foldl (\<lambda>m (k, v). map_set m k v) []
            (map (\<lambda>userId'.
                   (let achievementCounts =
                          (case map_get countsByUserId userId' of None \<Rightarrow> [] | Some m \<Rightarrow> m);
                        weeklyFortyContextKeys =
                          (case map_get weeklyFortyContextKeysByUserId userId' of
                             None \<Rightarrow> [] | Some ks \<Rightarrow> ks)
                    in (userId',
                        resolveHonorTitle localeCompare achievementCounts weeklyFortyContextKeys)))
               userIds))"

text \<open>What the specification names: the unlock counts and the streak keys of one user.\<close>

definition spec_unlockCount :: "'a AchievementGrantSummary_scheme list \<Rightarrow> int \<Rightarrow> string \<Rightarrow> int" where
  "spec_unlockCount grants u a =
     int (length (filter (\<lambda>g. userId g = u \<and> achievementId g = a) grants))"

definition spec_weeklyFortyKeys :: "'a AchievementGrantSummary_scheme list \<Rightarrow> int \<Rightarrow> string list" where
  "spec_weeklyFortyKeys grants u =
     map contextKey (filter (\<lambda>g. userId g = u \<and> achievementId g = WORKWEEK_WARRIOR_40H \<and>
        contextKind g = weekly) grants)"

definition mkGrant :: "int \<Rightarrow> string \<Rightarrow> AchievementContextKind \<Rightarrow> string \<Rightarrow> AchievementGrantSummary" where
  "mkGrant u a k c =
     \<lparr>userId = u, achievementId = a, contextKind = k, contextKey = c, awardedAt = 0\<rparr>"

definition example_streak4 :: "AchievementGrantSummary list" where
  "example_streak4 =
     [mkGrant 7 ''workweek-warrior-40h'' weekly ''2024-W03'',
      mkGrant 7 ''boss-raid-20h'' daily ''2024-01-20'',
      mkGrant 7 ''workweek-warrior-40h'' weekly ''2024-W01'',
      mkGrant 7 ''workweek-warrior-40h'' weekly ''2023-W52'',
      mkGrant 8 ''quick-boot-4h'' daily ''2024-01-20'',
      mkGrant 7 ''workweek-warrior-40h'' weekly ''2024-W02'',
      mkGrant 8 ''solo-day-8h'' daily ''2024-01-20'',
      mkGrant 8 ''solo-day-8h'' daily ''2024-01-21'',
      mkGrant 8 ''streak-forge-8h'' daily ''2024-01-21'']"


text \<open>
  The two arguments \<open>resolveHonorTitlesByUserId\<close> passes to \<open>resolveHonorTitle\<close> for one
  user: \<open>countsByUserId.get(userId) ?? new Map()\<close> and
  \<open>weeklyFortyContextKeysByUserId.get(userId) ?? []\<close>.
\<close>

definition userAchievementCounts ::
  "'a AchievementGrantSummary_scheme list \<Rightarrow> int \<Rightarrow> (string \<times> int) list" where
  "userAchievementCounts grants u =
     (case map_get (fst (foldl collectGrant ([], []) grants)) u of None \<Rightarrow> [] | Some m \<Rightarrow> m)"

definition userWeeklyFortyContextKeys ::
  "'a AchievementGrantSummary_scheme list \<Rightarrow> int \<Rightarrow> string list" where
  "userWeeklyFortyContextKeys grants u =
     (case map_get (snd (foldl collectGrant ([], []) grants)) u of None \<Rightarrow> [] | Some ks \<Rightarrow> ks)"

text \<open>
  The fallback order in the words of the specification: higher priority first, then higher
  unlock count, then the lexically smaller achievement id.
\<close>

definition spec_outranks ::
  "(string \<Rightarrow> string \<Rightarrow> int) \<Rightarrow> (string \<Rightarrow> int) \<Rightarrow> string \<Rightarrow> string \<Rightarrow> bool" where
  "spec_outranks localeCompare unlocks a b \<longleftrightarrow>
     priorityOf a > priorityOf b \<or>
     (priorityOf a = priorityOf b \<and>
        (unlocks a > unlocks b \<or> (unlocks a = unlocks b \<and> localeCompare a b \<le> 0)))"

text \<open>The invariant of the loop over the grants.\<close>

definition counts_inv ::
  "'a AchievementGrantSummary_scheme list \<Rightarrow> (int \<times> (string \<times> int) list) list \<Rightarrow> bool" where
  "counts_inv gs countsByUserId \<longleftrightarrow>
     (\<forall>u. case map_get countsByUserId u of
        None \<Rightarrow> \<forall>a. spec_unlockCount gs u a = 0
      | Some m \<Rightarrow> distinct (map fst m) \<and>
          (\<forall>a. map_of m a =
             (if spec_unlockCount gs u a = 0 then None else Some (spec_unlockCount gs u a))))"

definition keys_inv ::
  "'a AchievementGrantSummary_scheme list \<Rightarrow> (int \<times> string list) list \<Rightarrow> bool" where
  "keys_inv gs weeklyFortyContextKeysByUserId \<longleftrightarrow>
     (\<forall>u. (case map_get weeklyFortyContextKeysByUserId u of None \<Rightarrow> [] | Some ks \<Rightarrow> ks)
        = spec_weeklyFortyKeys gs u)"

text \<open>
  A run of \<open>n\<close> weeks in the words of the specification: \<open>n\<close> consecutive entries of the
  sorted week starts, each exactly seven days after the one before.
\<close>

definition weekRun :: "int \<Rightarrow> nat \<Rightarrow> int list" where
  "weekRun w n = map (\<lambda>i. w + int i * WEEK_MS) [0..<n]"


text \<open>The order on the tuples that \<open>compareRanked\<close> sorts by.\<close>

definition ranked_le ::
  "(string \<Rightarrow> string \<Rightarrow> int) \<Rightarrow> string \<times> int \<times> string \<times> int \<Rightarrow> string \<times> int \<times> string \<times> int
     \<Rightarrow> bool" where
  "ranked_le localeCompare a b \<longleftrightarrow>
     (case a of (a_id, a_count, a_title, a_priority) \<Rightarrow>
      case b of (b_id, b_count, b_title, b_priority) \<Rightarrow>
        a_priority > b_priority \<or>
        (a_priority = b_priority \<and>
           (a_count > b_count \<or> (a_count = b_count \<and> localeCompare a_id b_id \<le> 0))))"

section \<open>Backfill job (apps/server/src/scripts/backfill-achievements.ts)\<close>

text \<open>
  \<open>parseDateKey\<close>: the regular expression \<open>/^\d{4}-\d{2}-\d{2}$/\<close>, then
  \<open>new Date(dateKey + "T00:00:00.000Z")\<close>. The date parser of V8, the engine of Node.js,
  takes the year as written, accepts months 1 to 12 and days 1 to 31, and lets a day beyond the
  end of the month run into the next month; every other value gives the invalid date.
\<close>

definition parseDateKey :: "string \<Rightarrow> int option" where
  "parseDateKey dateKey' =
     (if length dateKey' = 10 \<and> list_all isDigit (take 4 dateKey') \<and> dateKey' ! 4 = CHR ''-'' \<and>
         list_all isDigit (take 2 (drop 5 dateKey')) \<and> dateKey' ! 7 = CHR ''-'' \<and>
         list_all isDigit (drop 8 dateKey')
      then
        (let year = digitsToInt (take 4 dateKey');
             month = digitsToInt (take 2 (drop 5 dateKey'));
             day = digitsToInt (drop 8 dateKey')
         in if 1 \<le> month \<and> month \<le> 12 \<and> 1 \<le> day \<and> day \<le> 31
            then Some (MakeDay year (month - 1) day * msPerDay)
            else None)
      else None)"

definition getIsoWeekStart :: "int \<Rightarrow> int" where
  "getIsoWeekStart value' =
     (let normalized = Date_UTC (getUTCFullYear value') (getUTCMonth value') (getUTCDate value');
          day = (if getUTCDay normalized = 0 then 7 else getUTCDay normalized)
      in setUTCDate normalized (getUTCDate normalized - day + 1))"

text \<open>
  In \<open>toIsoWeekKey\<close> both dates are midnights, so their difference is a whole number of days
  and \<open>Math.ceil\<close> of a seventh of an integer \<open>k\<close> is \<open>- ((- k) div 7)\<close>.
\<close>

definition toIsoWeekKey :: "int \<Rightarrow> string" where
  "toIsoWeekKey date' =
     (let normalized0 = Date_UTC (getUTCFullYear date') (getUTCMonth date') (getUTCDate date');
          day = (if getUTCDay normalized0 = 0 then 7 else getUTCDay normalized0);
          normalized = setUTCDate normalized0 (getUTCDate normalized0 + 4 - day);
          yearStart = Date_UTC (getUTCFullYear normalized) 0 1;
          week = - ((- ((normalized - yearStart) div 86400000 + 1)) div 7)
      in js_String (getUTCFullYear normalized) @ ''-W'' @ padStart (js_String week) 2 CHR ''0'')"

definition toDailyStatus :: "string \<Rightarrow> DailyStatStatus" where
  "toDailyStatus value' =
     (if value' = ''ok'' then status_ok
      else if value' = ''private'' then status_private
      else if value' = ''not_found'' then status_not_found
      else if value' = ''error'' then status_error
      else status_error)"

text \<open>The key of a bucket in the map \<open>buckets\<close>: the template string of the source.\<close>

definition bucketKey :: "int \<Rightarrow> string \<Rightarrow> string \<Rightarrow> string" where
  "bucketKey user_id' weeklyRangeKey isoWeekKey' =
     js_String user_id' @ '':'' @ weeklyRangeKey @ '':'' @ isoWeekKey'"

text \<open>
  The callback of \<open>dailyRows.forEach\<close>. The bucket found in the map is an object that the
  callback changes in place; here the changed bucket is stored back under its key, which keeps
  its position in the map.
\<close>

definition addDailyRow ::
  "string \<Rightarrow> (string \<times> 'p WeeklyBucket) list \<Rightarrow> 'p DailyHistoryRow
     \<Rightarrow> (string \<times> 'p WeeklyBucket) list" where
  "addDailyRow weeklyRangeKey buckets row =
     (if toDailyStatus (DailyHistoryRow.status row) \<noteq> status_ok then buckets
      else case parseDateKey (date_key row) of
        None \<Rightarrow> buckets
      | Some dayDate \<Rightarrow>
          (let isoWeekKey' = toIsoWeekKey dayDate;
               key = bucketKey (user_id row) weeklyRangeKey isoWeekKey';
               existing = map_get buckets key;
               day = \<lparr>dateKey = date_key row,
                      WeekDayRecord.totalSeconds = total_seconds row,
                      WeekDayRecord.fetchedAt = fetched_at row,
                      WeekDayRecord.payload = DailyHistoryRow.payload row\<rparr>
           in case existing of
                None \<Rightarrow>
                  map_set buckets key
                    \<lparr>WeeklyBucket.userId = user_id row, isoWeekKey = isoWeekKey',
                     WeeklyBucket.rangeKey = weeklyRangeKey,
                     WeeklyBucket.fetchedAt = fetched_at row, days = [day]\<rparr>
              | Some existing' \<Rightarrow>
                  map_set buckets key
                    (existing'\<lparr>days := days existing' @ [day],
                       WeeklyBucket.fetchedAt :=
                         (if fetched_at row > WeeklyBucket.fetchedAt existing'
                          then fetched_at row else WeeklyBucket.fetchedAt existing')\<rparr>)))"

definition createWeeklyBucketsFromDailyHistory ::
  "'p DailyHistoryRow list \<Rightarrow> string \<Rightarrow> 'p WeeklyBucket list" where
  "createWeeklyBucketsFromDailyHistory dailyRows weeklyRangeKey =
     map snd (foldl (addDailyRow weeklyRangeKey) [] dailyRows)"

text \<open>
  One round of the loop over the weekly buckets in \<open>runAchievementsBackfill\<close>: it throws
  when the bucket has no first day, skips the bucket (\<open>continue\<close>) when the first day's key does
  not parse, and otherwise calls \<open>awardWeeklyAchievements\<close> with the arguments returned here.
  \<open>buildWeeklyPayload\<close>, which assembles the JSON payload, is a parameter.
\<close>

datatype 'a loop_step = Threw | Skipped | Awarded 'a

definition weeklyBucketAward ::
  "(int \<Rightarrow> (string \<times> 'p WeekDayRecord) list \<Rightarrow> 'q) \<Rightarrow> 'p WeeklyBucket
     \<Rightarrow> 'q WeeklyAwardArgs loop_step" where
  "weeklyBucketAward buildWeeklyPayload bucket =
     (let dayByDate = foldl (\<lambda>m (k, v). map_set m k v) []
            (map (\<lambda>day. (dateKey day, day)) (days bucket))
      in case days bucket of
           [] \<Rightarrow> Threw
         | firstDay # _ \<Rightarrow>
             (case parseDateKey (dateKey firstDay) of
                None \<Rightarrow> Skipped
              | Some firstDayDate \<Rightarrow>
                  (let weekStart = getIsoWeekStart firstDayDate;
                       totalSeconds' = foldl (\<lambda>sum day. sum + WeekDayRecord.totalSeconds day) 0
                          (days bucket);
                       payload' = buildWeeklyPayload weekStart dayByDate
                   in Awarded
                        \<lparr>WeeklyAwardArgs.userId = WeeklyBucket.userId bucket,
                         WeeklyAwardArgs.rangeKey = WeeklyBucket.rangeKey bucket,
                         WeeklyAwardArgs.status = status_ok,
                         WeeklyAwardArgs.totalSeconds = totalSeconds',
                         dailyAverageSeconds = of_int totalSeconds' / 7,
                         WeeklyAwardArgs.payload = payload',
                         WeeklyAwardArgs.fetchedAt = WeeklyBucket.fetchedAt bucket\<rparr>)))"

definition weeklyBucketLoop ::
  "(int \<Rightarrow> (string \<times> 'p WeekDayRecord) list \<Rightarrow> 'q) \<Rightarrow> 'p DailyHistoryRow list \<Rightarrow> string
     \<Rightarrow> 'q WeeklyAwardArgs loop_step list" where
  "weeklyBucketLoop buildWeeklyPayload dailyRows weeklyRangeKey =
     map (weeklyBucketAward buildWeeklyPayload)
       (createWeeklyBucketsFromDailyHistory dailyRows weeklyRangeKey)"










section \<open>Server: the daily leaderboard (apps/server/src/app.ts)\<close>

text \<open>\<open>new Map(pairs)\<close>: later pairs overwrite earlier ones with the same key.\<close>

definition map_from_pairs :: "('k \<times> 'v) list \<Rightarrow> ('k \<times> 'v) list" where
  "map_from_pairs pairs = foldl (\<lambda>m (k, v). map_set m k v) [] pairs"

text \<open>
  The first statements of \<open>buildDailyLeaderboard\<close>: the ids of the viewer, the viewer's
  friends and the viewer's group peers, without repetition, and the users the store has for them.
\<close>

definition leaderboardUserIds :: "UserRepository \<Rightarrow> UserConfig \<Rightarrow> int list" where
  "leaderboardUserIds store config =
     (let groupPeerIds = uniq (getGroupPeerIds store (UserConfig.id' config));
          friendIds = uniq (map Friend.id' (friends config))
      in uniq (UserConfig.id' config # friendIds @ groupPeerIds))"

definition leaderboardUsers :: "UserRepository \<Rightarrow> UserConfig \<Rightarrow> UserRow list" where
  "leaderboardUsers store config =
     (let userIds = leaderboardUserIds store config;
          userRecords = getUsersByIds store userIds;
          usersById = map_from_pairs (map (\<lambda>user. (UserRow.id' user, user)) userRecords)
      in map the (filter (\<lambda>user. user \<noteq> None) (map (\<lambda>id. map_get usersById id) userIds)))"












section \<open>Formatting (packages/shared/src/format.ts)\<close>

text \<open>
  \<open>Math.round\<close> rounds half up. \<open>totalMinutes\<close> is not negative, so \<open>%\<close> is \<open>mod\<close>. The
  numbers in the template literals are rendered by \<open>js_String\<close>.
\<close>

definition formatDuration :: "js_number \<Rightarrow> string" where
  "formatDuration seconds =
     (let safeSeconds = (case seconds of Finite s \<Rightarrow> max 0 s | _ \<Rightarrow> 0);
          totalMinutes = \<lfloor>safeSeconds / 60 + 1 / 2\<rfloor>;
          hours = totalMinutes div 60;
          minutes = totalMinutes mod 60
      in if hours = 0 then js_String minutes @ ''m''
         else if minutes = 0 then js_String hours @ ''h''
         else js_String hours @ ''h '' @ js_String minutes @ ''m'')"

section \<open>Verified properties\<close>

subsection \<open>Sorting: permutation and order\<close>

lemma mset_js_insert: "mset (js_insert cmp x ys) = add_mset x (mset ys)"
  by (induction ys) auto

lemma mset_js_sort: "mset (js_sort cmp xs) = mset xs"
  by (induction xs) (auto simp: mset_js_insert)

lemma set_js_sort: "set (js_sort cmp xs) = set xs"
  using mset_js_sort [of cmp xs] by (metis set_mset_mset)

lemma length_js_sort: "length (js_sort cmp xs) = length xs"
  using mset_js_sort [of cmp xs] by (metis size_mset)

lemma set_js_insert: "set (js_insert cmp x ys) = insert x (set ys)"
  using mset_js_insert [of cmp x ys] by (metis set_mset_mset set_mset_add_mset_insert)

text \<open>
  Insertion keeps a list sorted for every relation \<open>R\<close> that is transitive, holds whenever the
  comparator says "not greater", and holds the other way round whenever it says "greater".
\<close>

lemma sorted_wrt_js_insert:
  assumes tr: "\<And>a b c. R a b \<Longrightarrow> R b c \<Longrightarrow> R a c"
    and le: "\<And>a b. cmp a b \<le> 0 \<Longrightarrow> R a b"
    and gt: "\<And>a b. \<not> cmp a b \<le> 0 \<Longrightarrow> R b a"
    and srt: "sorted_wrt R ys"
  shows "sorted_wrt R (js_insert cmp x ys)"
  using srt
proof (induction ys)
  case Nil
  then show ?case by simp
next
  case (Cons y ys)
  show ?case
  proof (cases "cmp x y \<le> 0")
    case True
    then have "R x y" by (rule le)
    moreover have "\<forall>z\<in>set ys. R x z"
      using Cons.prems \<open>R x y\<close> tr by auto
    ultimately show ?thesis using True Cons.prems by simp
  next
    case False
    then have "R y x" by (rule gt)
    then show ?thesis
      using False Cons by (auto simp: set_js_insert)
  qed
qed

lemma sorted_wrt_js_sort:
  assumes tr: "\<And>a b c. R a b \<Longrightarrow> R b c \<Longrightarrow> R a c"
    and le: "\<And>a b. cmp a b \<le> 0 \<Longrightarrow> R a b"
    and gt: "\<And>a b. \<not> cmp a b \<le> 0 \<Longrightarrow> R b a"
  shows "sorted_wrt R (js_sort cmp xs)"
proof (induction xs)
  case Nil
  then show ?case by simp
next
  case (Cons x xs)
  then show ?case
    using sorted_wrt_js_insert [of R cmp "js_sort cmp xs" x] tr le gt by auto
qed

subsection \<open>The rank walk\<close>

lemma length_rankWalk: "length (rankWalk b ss cr ls i xs) = length xs"
  by (induction xs arbitrary: cr ls i) (auto simp: Let_def split: prod.splits)

lemma truncate_rankWalk: "map DailyStat.truncate (rankWalk b ss cr ls i xs) = xs"
  by (induction xs arbitrary: cr ls i)
    (auto simp: Let_def DailyStat.defs LeaderboardEntry.defs split: prod.splits)

lemma status_rankWalk: "map status (rankWalk b ss cr ls i xs) = map status xs"
  by (induction xs arbitrary: cr ls i)
    (auto simp: Let_def DailyStat.defs LeaderboardEntry.defs split: prod.splits)

lemma totalSeconds_rankWalk: "map totalSeconds (rankWalk b ss cr ls i xs) = map totalSeconds xs"
  by (induction xs arbitrary: cr ls i)
    (auto simp: Let_def DailyStat.defs LeaderboardEntry.defs split: prod.splits)

lemma username_rankWalk: "map username (rankWalk b ss cr ls i xs) = map username xs"
  by (induction xs arbitrary: cr ls i)
    (auto simp: Let_def DailyStat.defs LeaderboardEntry.defs split: prod.splits)

lemma deltaSeconds_rankWalk:
  "map deltaSeconds (rankWalk b ss cr ls i xs) = map (\<lambda>e. totalSeconds e - ss) xs"
  by (induction xs arbitrary: cr ls i)
    (auto simp: Let_def DailyStat.defs LeaderboardEntry.defs split: prod.splits)

lemma rank_rankWalk_unranked:
  "map rank (rankWalk b ss cr ls i xs) ! k = None" if "k < length xs" "status (xs ! k) \<noteq> status_ok"
  using that
proof (induction xs arbitrary: cr ls i k)
  case Nil
  then show ?case by simp
next
  case (Cons x xs)
  then show ?case
    by (cases k) (auto simp: Let_def DailyStat.defs LeaderboardEntry.defs split: prod.splits)
qed

lemma rank_rankWalk_break:
  "map rank (rankWalk True ss cr ls i xs) ! k = Some (i + k + 1)"
  if "k < length xs" "status (xs ! k) = status_ok"
  using that
proof (induction xs arbitrary: cr ls i k)
  case Nil
  then show ?case by simp
next
  case (Cons x xs)
  then show ?case
    by (cases k) (auto simp: Let_def DailyStat.defs LeaderboardEntry.defs split: prod.splits)
qed

lemma rank_rankWalk_head:
  "map rank (rankWalk False ss cr ls i (x # xs)) ! 0 =
     (if ls = None \<or> Some (totalSeconds x) \<noteq> ls then Some (i + 1) else Some cr)"
  if "status x = status_ok"
  using that by (auto simp: Let_def DailyStat.defs LeaderboardEntry.defs split: prod.splits)

lemma rank_rankWalk_step:
  "map rank (rankWalk False ss cr ls i xs) ! Suc k =
     (if totalSeconds (xs ! Suc k) \<noteq> totalSeconds (xs ! k) then Some (i + k + 2)
      else map rank (rankWalk False ss cr ls i xs) ! k)"
  if "Suc k < length xs" "status (xs ! k) = status_ok" "status (xs ! Suc k) = status_ok"
  using that
proof (induction xs arbitrary: cr ls i k)
  case Nil
  then show ?case by simp
next
  case (Cons x xs)
  show ?case
  proof (cases k)
    case 0
    with Cons.prems obtain y ys where xs: "xs = y # ys" and y: "status y = status_ok"
      and x: "status x = status_ok"
      by (cases xs) auto
    show ?thesis
      using 0 x y rank_rankWalk_head [OF y]
      by (auto simp: xs Let_def DailyStat.defs LeaderboardEntry.defs split: prod.splits)
  next
    case (Suc k')
    with Cons.prems Cons.IH [of k'] show ?thesis
      by (auto simp: Let_def split: prod.splits)
  qed
qed

subsection \<open>The comparator of sortStats\<close>

lemma statusOrder_inj: "statusOrder a = statusOrder b \<longleftrightarrow> a = b"
  by (cases a; cases b) (simp_all add: statusOrder_def)

lemma statusOrder_ok: "statusOrder s \<le> 0 \<longleftrightarrow> s = status_ok"
  by (cases s) (simp_all add: statusOrder_def)

lemma statusOrder_nonneg: "0 \<le> statusOrder s"
  by (cases s) (simp_all add: statusOrder_def)

lemma compareStats_le_status:
  "compareStats lc a b \<le> 0 \<Longrightarrow> statusOrder (status a) \<le> statusOrder (status b)"
  by (auto simp: compareStats_def Let_def split: if_splits)

lemma compareStats_gt_status:
  "\<not> compareStats lc a b \<le> 0 \<Longrightarrow> statusOrder (status b) \<le> statusOrder (status a)"
  by (auto simp: compareStats_def Let_def split: if_splits)

lemma sorted_status_sortStats:
  "sorted_wrt (\<lambda>a b. statusOrder (status a) \<le> statusOrder (status b)) (sortStats lc stats)"
  unfolding sortStats_def
  by (rule sorted_wrt_js_sort) (auto dest: compareStats_le_status compareStats_gt_status)

lemma compareStats_le_spec:
  "compareStats lc a b \<le> 0 \<Longrightarrow> spec_order lc a b"
  by (auto simp: compareStats_def spec_order_def Let_def split: if_splits)

lemma compareStats_gt_spec:
  assumes "consistent_comparator lc" "\<not> compareStats lc a b \<le> 0"
  shows "spec_order lc b a"
proof -
  from assms(1) have "lc (username a) (username b) \<le> 0 \<or> lc (username b) (username a) \<le> 0"
    unfolding consistent_comparator_def by blast
  with assms(2) show ?thesis
    by (auto simp: compareStats_def spec_order_def Let_def split: if_splits)
qed

lemma spec_order_trans:
  assumes "consistent_comparator lc" "spec_order lc a b" "spec_order lc b c"
  shows "spec_order lc a c"
proof -
  from assms(1) have tr: "\<And>x y z. lc x y \<le> 0 \<Longrightarrow> lc y z \<le> 0 \<Longrightarrow> lc x z \<le> 0"
    unfolding consistent_comparator_def by blast
  from assms(2,3) show ?thesis
    unfolding spec_order_def using tr [of "username a" "username b" "username c"]
    by auto
qed

lemma sorted_spec_sortStats:
  assumes "consistent_comparator lc"
  shows "sorted_wrt (spec_order lc) (sortStats lc stats)"
  unfolding sortStats_def
proof (rule sorted_wrt_js_sort)
  show "\<And>a b c. spec_order lc a b \<Longrightarrow> spec_order lc b c \<Longrightarrow> spec_order lc a c"
    using spec_order_trans [OF assms] by blast
  show "\<And>a b. compareStats lc a b \<le> 0 \<Longrightarrow> spec_order lc a b"
    by (rule compareStats_le_spec)
  show "\<And>a b. \<not> compareStats lc a b \<le> 0 \<Longrightarrow> spec_order lc b a"
    using compareStats_gt_spec [OF assms] by blast
qed

subsection \<open>computeLeaderboard: order of the output\<close>

lemma computeLeaderboard_truncate:
  "map DailyStat.truncate (computeLeaderboard lc stats self) = sortStats lc stats"
  by (simp add: computeLeaderboard_def Let_def truncate_rankWalk)

lemma computeLeaderboard_status:
  "map status (computeLeaderboard lc stats self) = map status (sortStats lc stats)"
  by (simp add: computeLeaderboard_def Let_def status_rankWalk)

lemma computeLeaderboard_totalSeconds:
  "map totalSeconds (computeLeaderboard lc stats self) = map totalSeconds (sortStats lc stats)"
  by (simp add: computeLeaderboard_def Let_def totalSeconds_rankWalk)

lemma computeLeaderboard_username:
  "map username (computeLeaderboard lc stats self) = map username (sortStats lc stats)"
  by (simp add: computeLeaderboard_def Let_def username_rankWalk)

lemma length_computeLeaderboard:
  "length (computeLeaderboard lc stats self) = length stats"
  by (simp add: computeLeaderboard_def Let_def length_rankWalk sortStats_def length_js_sort)

lemma spec_order_truncate:
  "spec_order lc (DailyStat.truncate a) (DailyStat.truncate b) = spec_order lc a b"
  by (simp add: spec_order_def DailyStat.defs)

lemma sorted_spec_computeLeaderboard:
  assumes "consistent_comparator lc"
  shows "sorted_wrt (spec_order lc) (computeLeaderboard lc stats self)"
proof -
  have "sorted_wrt (spec_order lc) (map DailyStat.truncate (computeLeaderboard lc stats self))"
    using sorted_spec_sortStats [OF assms] by (simp add: computeLeaderboard_truncate)
  then show ?thesis
    by (simp add: sorted_wrt_map spec_order_truncate)
qed

lemma sorted_status_computeLeaderboard:
  "sorted_wrt (\<lambda>a b. statusOrder (status a) \<le> statusOrder (status b))
     (computeLeaderboard lc stats self)"
proof -
  have "sorted_wrt (\<lambda>a b. statusOrder a \<le> statusOrder b) (map status (sortStats lc stats))"
    using sorted_status_sortStats [of lc stats] by (simp add: sorted_wrt_map)
  then have "sorted_wrt (\<lambda>a b. statusOrder a \<le> statusOrder b)
      (map status (computeLeaderboard lc stats self))"
    by (simp only: computeLeaderboard_status)
  then show ?thesis
    by (simp add: sorted_wrt_map)
qed

lemma ok_before_unranked:
  assumes "i < length (computeLeaderboard lc stats self)"
    and "j < length (computeLeaderboard lc stats self)"
    and "status (computeLeaderboard lc stats self ! i) = status_ok"
    and "status (computeLeaderboard lc stats self ! j) \<noteq> status_ok"
  shows "i < j"
proof (rule ccontr)
  assume "\<not> i < j"
  with assms(3,4) have "j < i" by (cases "i = j") auto
  then have "statusOrder (status (computeLeaderboard lc stats self ! j))
      \<le> statusOrder (status (computeLeaderboard lc stats self ! i))"
    using sorted_status_computeLeaderboard [of lc stats self] assms(1)
    by (simp add: sorted_wrt_iff_nth_less)
  with assms(3) have "statusOrder (status (computeLeaderboard lc stats self ! j)) \<le> 0"
    by (simp add: statusOrder_def)
  with assms(4) show False by (simp add: statusOrder_ok)
qed

lemma rank_unranked:
  assumes "e \<in> set (computeLeaderboard lc stats self)" "status e \<noteq> status_ok"
  shows "rank e = None"
proof -
  let ?out = "computeLeaderboard lc stats self"
  from assms(1) obtain k where k: "k < length ?out" "?out ! k = e"
    by (auto simp: in_set_conv_nth)
  have len: "length ?out = length (sortStats lc stats)"
    by (simp add: computeLeaderboard_def Let_def length_rankWalk)
  have "status (sortStats lc stats ! k) = status (?out ! k)"
    using k(1) len computeLeaderboard_status [of lc stats self]
    by (metis nth_map)
  with k assms(2) len have unranked: "k < length (sortStats lc stats)"
    "status (sortStats lc stats ! k) \<noteq> status_ok"
    by simp_all
  obtain b ss where out: "?out = rankWalk b ss 0 None 0 (sortStats lc stats)"
    by (simp add: computeLeaderboard_def Let_def)
  have "map rank ?out ! k = None"
    unfolding out by (rule rank_rankWalk_unranked [OF unranked])
  then show ?thesis using k by simp
qed

subsection \<open>The example comparator is consistent\<close>

lemma codeCompare_Cons_le:
  "codeCompare (x # xs) (y # ys) \<le> 0 \<longleftrightarrow>
     (of_char x :: nat) < of_char y \<or> ((of_char x :: nat) = of_char y \<and> codeCompare xs ys \<le> 0)"
proof (cases "(of_char x :: nat) < of_char y")
  case True
  then show ?thesis by simp
next
  case False
  show ?thesis
  proof (cases "(of_char y :: nat) < of_char x")
    case True
    with False show ?thesis by auto
  next
    case gt: False
    with False have "(of_char x :: nat) = of_char y" by linarith
    with False gt show ?thesis by simp
  qed
qed

lemma codeCompare_total: "codeCompare a b \<le> 0 \<or> codeCompare b a \<le> 0"
proof (induction a b rule: codeCompare.induct)
  case (4 x xs y ys)
  then show ?case
    unfolding codeCompare_Cons_le by (metis less_linear)
qed simp_all

lemma codeCompare_trans:
  "codeCompare a b \<le> 0 \<Longrightarrow> codeCompare b c \<le> 0 \<Longrightarrow> codeCompare a c \<le> 0"
proof (induction a b arbitrary: c rule: codeCompare.induct)
  case 1
  then show ?case by simp
next
  case (2 y ys)
  then show ?case by (cases c) simp_all
next
  case (3 x xs)
  then show ?case by simp
next
  case (4 x xs y ys)
  show ?case
  proof (cases c)
    case Nil
    with 4 show ?thesis by simp
  next
    case (Cons z zs)
    from "4.prems" have xy: "(of_char x :: nat) < of_char y \<or>
        ((of_char x :: nat) = of_char y \<and> codeCompare xs ys \<le> 0)"
      and yz: "(of_char y :: nat) < of_char z \<or>
        ((of_char y :: nat) = of_char z \<and> codeCompare ys zs \<le> 0)"
      unfolding Cons codeCompare_Cons_le by blast+
    show ?thesis
    proof (cases "(of_char x :: nat) = of_char y \<and> (of_char y :: nat) = of_char z")
      case True
      with xy yz have "codeCompare xs ys \<le> 0" "codeCompare ys zs \<le> 0" by auto
      with True "4.IH" [of zs] have "codeCompare xs zs \<le> 0" by simp
      with True show ?thesis unfolding Cons codeCompare_Cons_le by simp
    next
      case False
      with xy yz have "(of_char x :: nat) < of_char z" by auto
      then show ?thesis unfolding Cons codeCompare_Cons_le by simp
    qed
  qed
qed

lemma consistent_codeCompare: "consistent_comparator codeCompare"
  unfolding consistent_comparator_def using codeCompare_total codeCompare_trans by blast

subsection \<open>The examples of the specification, evaluated\<close>

lemma example_mixed_out:
  "computeLeaderboard codeCompare example_mixed ''mo'' =
     [DailyStat.extend (mkStat ''amy'' 2000 status_ok) (LeaderboardEntry.fields (Some 1) 500),
      DailyStat.extend (mkStat ''mo'' 1500 status_ok) (LeaderboardEntry.fields (Some 2) 0),
      DailyStat.extend (mkStat ''ben'' 1000 status_ok) (LeaderboardEntry.fields (Some 3) (- 500)),
      DailyStat.extend (mkStat ''dena'' 0 status_private) (LeaderboardEntry.fields None (- 1500))]"
  by code_simp

lemma example_mixed_fields:
  "map username (computeLeaderboard codeCompare example_mixed ''mo'')
     = [''amy'', ''mo'', ''ben'', ''dena'']"
  "map status (computeLeaderboard codeCompare example_mixed ''mo'')
     = [status_ok, status_ok, status_ok, status_private]"
  by (simp_all add: example_mixed_out mkStat_def DailyStat.defs LeaderboardEntry.defs)

subsection \<open>computeLeaderboard: the walk over the sorted list\<close>

lemma set_sortStats: "set (sortStats lc stats) = set stats"
  by (simp add: sortStats_def set_js_sort)

lemma length_sortStats: "length (sortStats lc stats) = length stats"
  by (simp add: sortStats_def length_js_sort)

lemma shouldBreak_iff:
  "(length (filter (\<lambda>entry. status entry = status_ok) (sortStats lc stats)) > 0 \<and>
    list_all (\<lambda>entry. totalSeconds entry = 0)
      (filter (\<lambda>entry. status entry = status_ok) (sortStats lc stats))) \<longleftrightarrow>
   ((\<exists>s\<in>set stats. status s = status_ok) \<and>
    (\<forall>s\<in>set stats. status s = status_ok \<longrightarrow> totalSeconds s = 0))"
  by (auto simp: list_all_iff set_sortStats filter_empty_conv)

lemma computeLeaderboard_walk:
  "\<exists>ss. computeLeaderboard lc stats self =
     rankWalk ((\<exists>s\<in>set stats. status s = status_ok) \<and>
               (\<forall>s\<in>set stats. status s = status_ok \<longrightarrow> totalSeconds s = 0))
       ss 0 None 0 (sortStats lc stats)"
  unfolding computeLeaderboard_def Let_def shouldBreak_iff by blast

lemma nth_computeLeaderboard:
  assumes "i < length stats"
  shows "status (computeLeaderboard lc stats self ! i) = status (sortStats lc stats ! i)"
    and "totalSeconds (computeLeaderboard lc stats self ! i) = totalSeconds (sortStats lc stats ! i)"
    and "username (computeLeaderboard lc stats self ! i) = username (sortStats lc stats ! i)"
proof -
  have len: "i < length (computeLeaderboard lc stats self)" "i < length (sortStats lc stats)"
    using assms by (simp_all add: length_computeLeaderboard length_sortStats)
  show "status (computeLeaderboard lc stats self ! i) = status (sortStats lc stats ! i)"
    using len computeLeaderboard_status [of lc stats self] by (metis nth_map)
  show "totalSeconds (computeLeaderboard lc stats self ! i) = totalSeconds (sortStats lc stats ! i)"
    using len computeLeaderboard_totalSeconds [of lc stats self] by (metis nth_map)
  show "username (computeLeaderboard lc stats self ! i) = username (sortStats lc stats ! i)"
    using len computeLeaderboard_username [of lc stats self] by (metis nth_map)
qed

lemma ok_prefix:
  assumes "i < length (computeLeaderboard lc stats self)"
    and "status (computeLeaderboard lc stats self ! i) = status_ok" and "j \<le> i"
  shows "status (computeLeaderboard lc stats self ! j) = status_ok"
  using ok_before_unranked [of i lc stats self j] assms by fastforce

lemma example_ties_fields:
  "map status (computeLeaderboard codeCompare example_ties ''mo'')
     = [status_ok, status_ok, status_ok]"
  "map totalSeconds (computeLeaderboard codeCompare example_ties ''mo'') = [1200, 1200, 900]"
  "map rank (computeLeaderboard codeCompare example_ties ''mo'') = [Some 1, Some 1, Some 3]"
  by code_simp+

lemma example_idle_fields:
  "map status (computeLeaderboard codeCompare example_idle ''mo'')
     = [status_ok, status_ok, status_ok]"
  "map username (computeLeaderboard codeCompare example_idle ''mo'') = [''amy'', ''mo'', ''zoe'']"
  "map rank (computeLeaderboard codeCompare example_idle ''mo'') = [Some 1, Some 2, Some 3]"
  by code_simp+

subsection \<open>computeLeaderboard: deltas\<close>

lemma computeLeaderboard_deltaSeconds:
  "map deltaSeconds (computeLeaderboard lc stats self) =
     map (\<lambda>e. totalSeconds e -
        (case find (\<lambda>entry. username entry = self) (sortStats lc stats) of
           None \<Rightarrow> 0 | Some e \<Rightarrow> totalSeconds e)) (sortStats lc stats)"
  by (simp add: computeLeaderboard_def Let_def deltaSeconds_rankWalk)

lemma deltaSeconds_entry:
  assumes "e \<in> set (computeLeaderboard lc stats self)"
  shows "deltaSeconds e = totalSeconds e -
        (case find (\<lambda>entry. username entry = self) (sortStats lc stats) of
           None \<Rightarrow> 0 | Some e \<Rightarrow> totalSeconds e)"
proof -
  let ?out = "computeLeaderboard lc stats self"
  let ?ss = "case find (\<lambda>entry. username entry = self) (sortStats lc stats) of
           None \<Rightarrow> 0 | Some e \<Rightarrow> totalSeconds e"
  from assms obtain k where k: "k < length ?out" "?out ! k = e"
    by (auto simp: in_set_conv_nth)
  then have ks: "k < length stats" "k < length (sortStats lc stats)"
    by (simp_all add: length_computeLeaderboard length_sortStats)
  have "deltaSeconds e = map deltaSeconds ?out ! k" using k by simp
  also have "\<dots> = totalSeconds (sortStats lc stats ! k) - ?ss"
    unfolding computeLeaderboard_deltaSeconds using ks by simp
  also have "totalSeconds (sortStats lc stats ! k) = totalSeconds e"
    using nth_computeLeaderboard(2) [OF ks(1), of lc self] k by simp
  finally show ?thesis .
qed

lemma find_unique:
  assumes "distinct (map f xs)" "x \<in> set xs" "f x = v"
  shows "find (\<lambda>e. f e = v) xs = Some x"
  using assms
proof (induction xs)
  case Nil
  then show ?case by simp
next
  case (Cons y ys)
  then show ?case by (cases "f y = v") (auto simp: image_iff)
qed

lemma selfSeconds_distinct:
  assumes "distinct (map username stats)"
  shows "(case find (\<lambda>entry. username entry = self) (sortStats lc stats) of
           None \<Rightarrow> 0 | Some e \<Rightarrow> totalSeconds e) = spec_selfSeconds stats self"
proof (cases "find (\<lambda>entry. username entry = self) (sortStats lc stats)")
  case None
  then have "\<not> (\<exists>x\<in>set stats. username x = self)"
    by (auto simp: find_None_iff set_sortStats)
  then have "find (\<lambda>entry. username entry = self) stats = None"
    by (auto simp: find_None_iff)
  with None show ?thesis by (simp add: spec_selfSeconds_def)
next
  case (Some x)
  then have "x \<in> set stats" "username x = self"
    by (auto simp: find_Some_iff set_sortStats dest: nth_mem)
  with assms have "find (\<lambda>entry. username entry = self) stats = Some x"
    by (intro find_unique) simp_all
  with Some show ?thesis by (simp add: spec_selfSeconds_def)
qed

lemma example_mixed_delta:
  "map deltaSeconds (computeLeaderboard codeCompare example_mixed ''mo'') = [500, 0, - 500, - 1500]"
  "map totalSeconds (computeLeaderboard codeCompare example_mixed ''mo'') = [2000, 1500, 1000, 0]"
  by code_simp+

subsection \<open>sliceLeaderboard\<close>

lemma set_js_slice: "set (js_slice xs a b) \<subseteq> set xs"
  unfolding js_slice_def Let_def
  by (meson set_take_subset set_drop_subset subset_trans)

lemma slice_parts:
  fixes lc entries' self opts
  defines "r \<equiv> sliceLeaderboard lc entries' self opts"
  shows "set (podium r) \<subseteq> set entries'" "set (nearMe r) \<subseteq> set entries'"
    "rest r = filter (\<lambda>e. username e \<notin> username ` (set (podium r) \<union> set (nearMe r)))
       (sortStats lc entries')"
proof -
  have sub: "\<And>a b. set (js_slice (filter (\<lambda>entry. status entry = status_ok)
      (sortStats lc entries')) a b) \<subseteq> set entries'"
    using set_js_slice set_sortStats by fastforce
  show "set (podium r) \<subseteq> set entries'"
    unfolding r_def sliceLeaderboard_def Let_def using sub by simp
  show "set (nearMe r) \<subseteq> set entries'"
    unfolding r_def sliceLeaderboard_def Let_def using sub by auto
  show "rest r = filter (\<lambda>e. username e \<notin> username ` (set (podium r) \<union> set (nearMe r)))
       (sortStats lc entries')"
    unfolding r_def sliceLeaderboard_def Let_def by (simp add: image_Un)
qed

lemma example_slice_out:
  "map username (podium (sliceLeaderboard codeCompare example_slice ''mo''
      \<lparr>podiumCount = Some 3, aroundCount = Some 1\<rparr>)) = [''amy'', ''ben'', ''cora'']"
  "map username (nearMe (sliceLeaderboard codeCompare example_slice ''mo''
      \<lparr>podiumCount = Some 3, aroundCount = Some 1\<rparr>)) = [''cora'', ''mo'', ''dena'']"
  "map username (rest (sliceLeaderboard codeCompare example_slice ''mo''
      \<lparr>podiumCount = Some 3, aroundCount = Some 1\<rparr>)) = [''eli'']"
  by code_simp+

subsection \<open>grantAchievement: insert or update in place\<close>

lemma findIndex_neg: "findIndex P xs < 0 \<longleftrightarrow> (\<forall>x\<in>set xs. \<not> P x)"
  by (induction xs) (auto simp: Let_def)

lemma findIndex_ge_m1: "- 1 \<le> findIndex P xs"
  by (induction xs) (auto simp: Let_def)

lemma findIndex_bound: "findIndex P xs < int (length xs)"
  by (induction xs) (auto simp: Let_def)

lemma findIndex_nth:
  "0 \<le> findIndex P xs \<Longrightarrow> P (xs ! nat (findIndex P xs))"
proof (induction xs)
  case Nil
  then show ?case by simp
next
  case (Cons x xs)
  show ?case
  proof (cases "P x")
    case True
    then show ?thesis by simp
  next
    case False
    with Cons.prems have nn: "0 \<le> findIndex P xs"
      by (auto simp: Let_def split: if_splits)
    with Cons.IH have "P (xs ! nat (findIndex P xs))" by simp
    moreover have "nat (findIndex P xs + 1) = Suc (nat (findIndex P xs))"
      using nn by simp
    ultimately show ?thesis using False nn by (simp add: Let_def)
  qed
qed

lemma map_enumerate_update:
  "0 \<le> i \<Longrightarrow>
   map (\<lambda>(index, entry). if int index = i then r else entry) (enumerate 0 xs) = xs[nat i := r]"
  by (auto simp: list_eq_iff_nth_eq nth_enumerate_eq nth_list_update)

lemma grantAchievement_absent:
  assumes "grantKey input \<notin> grantKey ` set achievements"
  shows "grantAchievement achievements input =
    achievements @ [\<lparr>userId = userId input, achievementId = achievementId input,
       contextKind = contextKind input, contextKey = contextKey input,
       awardedAt = awardedAt input,
       metadata = (case AchievementGrantRecord.metadata input of None \<Rightarrow> None | Some m \<Rightarrow> m)\<rparr>]"
proof -
  let ?P = "\<lambda>entry. userId entry = userId input \<and> achievementId entry = achievementId input \<and>
            contextKind entry = contextKind input \<and> contextKey entry = contextKey input"
  have "\<forall>x\<in>set achievements. \<not> ?P x"
    using assms by (auto simp: grantKey_def image_iff)
  then have "findIndex ?P achievements < 0" by (simp add: findIndex_neg)
  then show ?thesis by (simp add: grantAchievement_def Let_def)
qed

lemma grantAchievement_present:
  assumes "grantKey input \<in> grantKey ` set achievements"
  shows "\<exists>k < length achievements. grantKey (achievements ! k) = grantKey input \<and>
    grantAchievement achievements input =
    achievements[k := \<lparr>userId = userId input, achievementId = achievementId input,
       contextKind = contextKind input, contextKey = contextKey input,
       awardedAt = awardedAt input,
       metadata = (case AchievementGrantRecord.metadata input of None \<Rightarrow> None | Some m \<Rightarrow> m)\<rparr>]"
proof -
  let ?P = "\<lambda>entry. userId entry = userId input \<and> achievementId entry = achievementId input \<and>
            contextKind entry = contextKind input \<and> contextKey entry = contextKey input"
  let ?i = "findIndex ?P achievements"
  have "\<not> (\<forall>x\<in>set achievements. \<not> ?P x)"
    using assms by (auto simp: grantKey_def image_iff)
  then have nn: "0 \<le> ?i" using findIndex_neg [of ?P achievements] by linarith
  have lt: "nat ?i < length achievements"
    using findIndex_bound [of ?P achievements] nn by simp
  have "?P (achievements ! nat ?i)" using findIndex_nth [OF nn] .
  then have key: "grantKey (achievements ! nat ?i) = grantKey input"
    by (simp add: grantKey_def)
  have "grantAchievement achievements input =
    achievements[nat ?i := \<lparr>userId = userId input, achievementId = achievementId input,
       contextKind = contextKind input, contextKey = contextKey input,
       awardedAt = awardedAt input,
       metadata = (case AchievementGrantRecord.metadata input of None \<Rightarrow> None | Some m \<Rightarrow> m)\<rparr>]"
    unfolding grantAchievement_def Let_def
    using nn by (simp add: map_enumerate_update)
  with lt key show ?thesis by blast
qed

lemma grantKey_record [simp]:
  "grantKey \<lparr>userId = u, achievementId = a, contextKind = k, contextKey = c,
       awardedAt = t, metadata = m\<rparr> = (u, a, k, c)"
  by (simp add: grantKey_def)

lemma grantKey_input:
  "(userId input, achievementId input, contextKind input, contextKey input) = grantKey input"
  by (simp add: grantKey_def)

lemma keys_grantAchievement:
  "map grantKey (grantAchievement s g) =
     (if grantKey g \<in> grantKey ` set s then map grantKey s else map grantKey s @ [grantKey g])"
proof (cases "grantKey g \<in> grantKey ` set s")
  case True
  from grantAchievement_present [OF True] obtain k where k: "k < length s"
    "grantKey (s ! k) = grantKey g" and eq: "grantAchievement s g = s[k := \<lparr>userId = userId g,
       achievementId = achievementId g, contextKind = contextKind g, contextKey = contextKey g,
       awardedAt = awardedAt g,
       metadata = (case AchievementGrantRecord.metadata g of None \<Rightarrow> None | Some m \<Rightarrow> m)\<rparr>]"
    by blast
  have "map grantKey (grantAchievement s g) = (map grantKey s)[k := grantKey g]"
    unfolding eq by (simp add: map_update grantKey_input)
  also have "\<dots> = map grantKey s"
    using k by (metis list_update_id nth_map)
  finally show ?thesis using True by simp
next
  case False
  then show ?thesis
    by (simp add: grantAchievement_absent grantKey_input)
qed

lemma distinct_grantAchievement:
  "distinct (map grantKey s) \<Longrightarrow> distinct (map grantKey (grantAchievement s g))"
  by (auto simp: keys_grantAchievement)

lemma distinct_history:
  "distinct (map grantKey s) \<Longrightarrow> distinct (map grantKey (foldl grantAchievement s hist))"
  by (induction hist arbitrary: s) (simp_all add: distinct_grantAchievement)

lemma key_in_grantAchievement: "grantKey g \<in> grantKey ` set (grantAchievement s g)"
proof -
  have "grantKey g \<in> set (map grantKey (grantAchievement s g))"
    unfolding keys_grantAchievement by auto
  then show ?thesis by simp
qed

lemma filter_unique_key:
  "distinct (map f xs) \<Longrightarrow> v \<in> f ` set xs \<Longrightarrow> length (filter (\<lambda>e. f e = v) xs) = 1"
proof (induction xs)
  case Nil
  then show ?case by simp
next
  case (Cons x xs)
  show ?case
  proof (cases "f x = v")
    case True
    with Cons.prems have "\<forall>e\<in>set xs. f e \<noteq> v" by (auto simp: image_iff)
    then have "filter (\<lambda>e. f e = v) xs = []" by (simp add: filter_empty_conv)
    with True show ?thesis by simp
  next
    case False
    with Cons show ?thesis by auto
  qed
qed

lemma filter_other_update:
  "k < length xs \<Longrightarrow> f (xs ! k) = v \<Longrightarrow> f r = v \<Longrightarrow>
   filter (\<lambda>e. f e \<noteq> v) (xs[k := r]) = filter (\<lambda>e. f e \<noteq> v) xs"
proof (induction xs arbitrary: k)
  case Nil
  then show ?case by simp
next
  case (Cons x xs)
  then show ?case by (cases k) auto
qed

lemma singleton_filter:
  assumes "length (filter P xs) = 1" "r \<in> set xs" "P r"
  shows "filter P xs = [r]"
proof -
  from assms(1) obtain y where y: "filter P xs = [y]"
    by (cases "filter P xs") auto
  from assms(2,3) have "r \<in> set (filter P xs)" by simp
  with y show ?thesis by simp
qed

lemma prisma_grant_twice:
  "\<exists>m1. prisma_grantAchievement t g (grantKey g) = Some (awardedAt g, m1) \<and>
     prisma_grantAchievement (prisma_grantAchievement t g)
       (g\<lparr>awardedAt := a, AchievementGrantRecord.metadata := m\<rparr>) =
     (prisma_grantAchievement t g)(grantKey g \<mapsto> (a, case m of None \<Rightarrow> m1 | Some v \<Rightarrow> v))"
  by (cases "t (grantKey g)")
    (auto simp: prisma_grantAchievement_def Let_def grantKey_def split: option.splits)

subsection \<open>Honor titles: grouping the grants per user\<close>

lemma map_of_map_set: "map_of (map_set m k v) = (map_of m)(k \<mapsto> v)"
  by (induction m) (auto simp: fun_eq_iff)

lemma map_get_map_set: "map_get (map_set m k v) k' = (if k' = k then Some v else map_get m k')"
  by (simp add: map_get_def map_of_map_set)

lemma keys_map_set: "set (map fst (map_set m k v)) = insert k (set (map fst m))"
proof -
  have "fst ` set (map_set m k v) = dom (map_of (map_set m k v))"
    by (simp add: dom_map_of_conv_image_fst)
  also have "\<dots> = insert k (dom (map_of m))"
    by (simp add: map_of_map_set)
  also have "dom (map_of m) = fst ` set m"
    by (simp add: dom_map_of_conv_image_fst)
  finally show ?thesis by simp
qed

lemma distinct_map_set: "distinct (map fst m) \<Longrightarrow> distinct (map fst (map_set m k v))"
proof (induction m)
  case Nil
  then show ?case by simp
next
  case (Cons p m)
  obtain k' v' where p: "p = (k', v')" by (cases p)
  show ?case
  proof (cases "k' = k")
    case True
    with Cons.prems p show ?thesis by simp
  next
    case False
    have "set (map fst (map_set m k v)) = insert k (set (map fst m))" by (rule keys_map_set)
    with False Cons p show ?thesis by auto
  qed
qed

lemma spec_unlockCount_snoc:
  "spec_unlockCount (gs @ [g]) u a =
     spec_unlockCount gs u a + (if userId g = u \<and> achievementId g = a then 1 else 0)"
  by (simp add: spec_unlockCount_def)

lemma spec_weeklyFortyKeys_snoc:
  "spec_weeklyFortyKeys (gs @ [g]) u =
     spec_weeklyFortyKeys gs u @
       (if userId g = u \<and> achievementId g = WORKWEEK_WARRIOR_40H \<and> contextKind g = weekly
        then [contextKey g] else [])"
  by (simp add: spec_weeklyFortyKeys_def)

lemma spec_unlockCount_nonneg: "0 \<le> spec_unlockCount gs u a"
  by (simp add: spec_unlockCount_def)

lemma collectGrant_counts:
  assumes "counts_inv gs C"
  shows "counts_inv (gs @ [g]) (fst (collectGrant (C, K) g))"
proof -
  let ?uc = "case map_get C (userId g) of None \<Rightarrow> [] | Some m \<Rightarrow> m"
  let ?uc' = "map_set ?uc (achievementId g)
            ((case map_get ?uc (achievementId g) of None \<Rightarrow> 0 | Some c \<Rightarrow> c) + 1)"
  have fst_eq: "fst (collectGrant (C, K) g) = map_set C (userId g) ?uc'"
    by (simp add: collectGrant_def Let_def)
  have uc: "distinct (map fst ?uc) \<and> (\<forall>a. map_of ?uc a =
             (if spec_unlockCount gs (userId g) a = 0 then None
              else Some (spec_unlockCount gs (userId g) a)))"
    using assms unfolding counts_inv_def
    by (cases "map_get C (userId g)") (auto dest: spec[of _ "userId g"])
  have old: "(case map_get ?uc (achievementId g) of None \<Rightarrow> 0 | Some c \<Rightarrow> c)
      = spec_unlockCount gs (userId g) (achievementId g)"
    using uc by (simp add: map_get_def)
  have pos: "spec_unlockCount gs (userId g) (achievementId g) + 1 \<noteq> 0"
    using spec_unlockCount_nonneg [of gs "userId g" "achievementId g"] by simp
  have new: "distinct (map fst ?uc') \<and> (\<forall>a. map_of ?uc' a =
             (if spec_unlockCount (gs @ [g]) (userId g) a = 0 then None
              else Some (spec_unlockCount (gs @ [g]) (userId g) a)))"
    using uc pos unfolding old
    by (auto simp: distinct_map_set map_of_map_set spec_unlockCount_snoc)
  show ?thesis
    unfolding counts_inv_def fst_eq
  proof
    fix u
    show "case map_get (map_set C (userId g) ?uc') u of
        None \<Rightarrow> \<forall>a. spec_unlockCount (gs @ [g]) u a = 0
      | Some m \<Rightarrow> distinct (map fst m) \<and>
          (\<forall>a. map_of m a =
             (if spec_unlockCount (gs @ [g]) u a = 0 then None
              else Some (spec_unlockCount (gs @ [g]) u a)))"
    proof (cases "u = userId g")
      case True
      with new show ?thesis by (simp add: map_get_map_set)
    next
      case False
      then have same: "\<And>a. spec_unlockCount (gs @ [g]) u a = spec_unlockCount gs u a"
        by (auto simp: spec_unlockCount_snoc)
      from assms have "case map_get C u of
          None \<Rightarrow> \<forall>a. spec_unlockCount gs u a = 0
        | Some m \<Rightarrow> distinct (map fst m) \<and>
            (\<forall>a. map_of m a =
               (if spec_unlockCount gs u a = 0 then None else Some (spec_unlockCount gs u a)))"
        unfolding counts_inv_def by blast
      with False show ?thesis
        by (simp only: same map_get_map_set if_False)
    qed
  qed
qed

lemma collectGrant_keys:
  assumes "keys_inv gs K"
  shows "keys_inv (gs @ [g]) (snd (collectGrant (C, K) g))"
  using assms unfolding keys_inv_def
  by (auto simp: collectGrant_def Let_def map_get_map_set spec_weeklyFortyKeys_snoc)

lemma collect_inv:
  "counts_inv gs (fst (foldl collectGrant ([], []) gs)) \<and>
   keys_inv gs (snd (foldl collectGrant ([], []) gs))"
proof (induction gs rule: rev_induct)
  case Nil
  show ?case
    by (simp add: counts_inv_def keys_inv_def map_get_def spec_unlockCount_def
        spec_weeklyFortyKeys_def)
next
  case (snoc g gs)
  obtain C K where s: "foldl collectGrant ([], []) gs = (C, K)"
    by (cases "foldl collectGrant ([], []) gs")
  with snoc show ?case
    using collectGrant_counts [of gs C g K] collectGrant_keys [of gs K g C] by simp
qed

lemma userAchievementCounts_spec:
  "distinct (map fst (userAchievementCounts grants u))"
  "map_of (userAchievementCounts grants u) a =
     (if spec_unlockCount grants u a = 0 then None else Some (spec_unlockCount grants u a))"
proof -
  let ?C = "fst (foldl collectGrant ([], []) grants)"
  have inv: "case map_get ?C u of
        None \<Rightarrow> \<forall>a. spec_unlockCount grants u a = 0
      | Some m \<Rightarrow> distinct (map fst m) \<and>
          (\<forall>a. map_of m a =
             (if spec_unlockCount grants u a = 0 then None
              else Some (spec_unlockCount grants u a)))"
    using collect_inv [of grants] unfolding counts_inv_def by blast
  show "distinct (map fst (userAchievementCounts grants u))"
    using inv unfolding userAchievementCounts_def by (cases "map_get ?C u") simp_all
  show "map_of (userAchievementCounts grants u) a =
     (if spec_unlockCount grants u a = 0 then None else Some (spec_unlockCount grants u a))"
    using inv unfolding userAchievementCounts_def by (cases "map_get ?C u") simp_all
qed

lemma getCount_spec: "getCount (userAchievementCounts grants u) a = spec_unlockCount grants u a"
  by (simp add: getCount_def map_get_def userAchievementCounts_spec(2))


lemma map_of_from_pairs:
  "map_of (foldl (\<lambda>m (k, v). map_set m k v) m0 (map (\<lambda>u. (u, f u)) us)) u =
     (if u \<in> set us then Some (f u) else map_of m0 u)"
  by (induction us arbitrary: m0 rule: rev_induct) (auto simp: map_of_map_set)

lemma resolveHonorTitlesByUserId_lookup:
  "map_get (resolveHonorTitlesByUserId lc userIds grants) u =
     (if u \<in> set userIds
      then Some (resolveHonorTitle lc (userAchievementCounts grants u)
                   (userWeeklyFortyContextKeys grants u))
      else None)"
proof -
  obtain C K where s: "foldl collectGrant ([], []) grants = (C, K)"
    by (cases "foldl collectGrant ([], []) grants")
  show ?thesis
    unfolding resolveHonorTitlesByUserId_def s map_get_def
    using map_of_from_pairs [of "[]" "\<lambda>userId'.
        resolveHonorTitle lc (case map_of C userId' of None \<Rightarrow> [] | Some m \<Rightarrow> m)
          (case map_of K userId' of None \<Rightarrow> [] | Some ks \<Rightarrow> ks)" userIds u]
    by (simp add: Let_def userAchievementCounts_def userWeeklyFortyContextKeys_def s map_get_def)
qed

subsection \<open>Honor titles: the streak walk finds exactly the runs of weeks\<close>


lemma weekRun_0 [simp]: "weekRun w 0 = []"
  by (simp add: weekRun_def)







subsection \<open>Honor titles: the priority fallback\<close>

lemma compareRanked_le: "compareRanked lc a b \<le> 0 \<Longrightarrow> ranked_le lc a b"
  by (cases a; cases b) (auto simp: compareRanked_def ranked_le_def split: if_splits)

lemma compareRanked_gt:
  assumes "consistent_comparator lc" "\<not> compareRanked lc a b \<le> 0"
  shows "ranked_le lc b a"
proof -
  obtain ai ac ati ap bi bc bt bp where ab: "a = (ai, ac, ati, ap)" "b = (bi, bc, bt, bp)"
    by (cases a; cases b) blast
  from assms(1) have "lc ai bi \<le> 0 \<or> lc bi ai \<le> 0"
    unfolding consistent_comparator_def by blast
  with assms(2) show ?thesis
    unfolding ab by (auto simp: compareRanked_def ranked_le_def split: if_splits)
qed

lemma ranked_le_trans:
  assumes "consistent_comparator lc" "ranked_le lc a b" "ranked_le lc b c"
  shows "ranked_le lc a c"
proof -
  obtain ai ac ati ap bi bc bt bp ci cc ct cp where
    abc: "a = (ai, ac, ati, ap)" "b = (bi, bc, bt, bp)" "c = (ci, cc, ct, cp)"
    by (cases a; cases b; cases c) blast
  from assms(1) have tr: "lc ai bi \<le> 0 \<Longrightarrow> lc bi ci \<le> 0 \<Longrightarrow> lc ai ci \<le> 0"
    unfolding consistent_comparator_def by blast
  from assms(2,3) show ?thesis
    unfolding abc ranked_le_def using tr by auto
qed

lemma sorted_ranked:
  assumes "consistent_comparator lc"
  shows "sorted_wrt (ranked_le lc) (js_sort (compareRanked lc) xs)"
proof (rule sorted_wrt_js_sort)
  show "\<And>a b c. ranked_le lc a b \<Longrightarrow> ranked_le lc b c \<Longrightarrow> ranked_le lc a c"
    using ranked_le_trans [OF assms] by blast
  show "\<And>a b. compareRanked lc a b \<le> 0 \<Longrightarrow> ranked_le lc a b"
    by (rule compareRanked_le)
  show "\<And>a b. \<not> compareRanked lc a b \<le> 0 \<Longrightarrow> ranked_le lc b a"
    using compareRanked_gt [OF assms] by blast
qed

lemma ranked_le_refl:
  assumes "consistent_comparator lc"
  shows "ranked_le lc a a"
proof -
  obtain ai ac ati ap where a: "a = (ai, ac, ati, ap)" by (cases a) blast
  from assms have "lc ai ai \<le> 0" unfolding consistent_comparator_def by blast
  then show ?thesis unfolding a ranked_le_def by simp
qed

lemma ranked_set:
  "set (map (\<lambda>(achievementId', count'). (achievementId', count', titleOf achievementId',
            priorityOf achievementId'))
         (filter (\<lambda>(achievementId', count'). count' > 0) (userAchievementCounts grants u))) =
   {(a, spec_unlockCount grants u a, titleOf a, priorityOf a) | a.
      1 \<le> spec_unlockCount grants u a}"
proof -
  let ?cm = "userAchievementCounts grants u"
  have mem: "(a, c) \<in> set ?cm \<longleftrightarrow> (c = spec_unlockCount grants u a \<and> c \<noteq> 0)" for a c
  proof -
    have "(a, c) \<in> set ?cm \<longleftrightarrow> map_of ?cm a = Some c"
      using userAchievementCounts_spec(1) [of grants u] by (simp add: map_of_eq_Some_iff)
    also have "\<dots> \<longleftrightarrow> (c = spec_unlockCount grants u a \<and> c \<noteq> 0)"
      by (auto simp: userAchievementCounts_spec(2))
    finally show ?thesis .
  qed
  show ?thesis
    using mem spec_unlockCount_nonneg [of grants u]
    by (auto simp: image_iff)
qed


lemma no_grants_no_counts:
  assumes "\<forall>g\<in>set grants. userId g \<noteq> u"
  shows "spec_unlockCount grants u a = 0"
  using assms by (simp add: spec_unlockCount_def filter_empty_conv)

lemma some_grant_some_count:
  assumes "g \<in> set grants" "userId g = u"
  shows "1 \<le> spec_unlockCount grants u (achievementId g)"
proof -
  have "filter (\<lambda>h. userId h = u \<and> achievementId h = achievementId g) grants \<noteq> []"
    using assms by (auto simp: filter_empty_conv)
  then have "0 < length (filter (\<lambda>h. userId h = u \<and> achievementId h = achievementId g) grants)"
    by simp
  then show ?thesis unfolding spec_unlockCount_def by linarith
qed

lemma top_title:
  assumes lc: "consistent_comparator lc"
  shows "(\<forall>g\<in>set grants. userId g \<noteq> u) \<longrightarrow>
           resolveTopAchievementTitle lc (userAchievementCounts grants u) = None"
    and "(\<exists>g\<in>set grants. userId g = u) \<longrightarrow>
           (\<exists>best. 1 \<le> spec_unlockCount grants u best \<and>
              resolveTopAchievementTitle lc (userAchievementCounts grants u) = Some (titleOf best) \<and>
              (\<forall>b. 1 \<le> spec_unlockCount grants u b \<longrightarrow>
                 spec_outranks lc (spec_unlockCount grants u) best b))"
proof -
  let ?xs = "map (\<lambda>(achievementId', count'). (achievementId', count', titleOf achievementId',
            priorityOf achievementId'))
         (filter (\<lambda>(achievementId', count'). count' > 0) (userAchievementCounts grants u))"
  let ?S = "{(a, spec_unlockCount grants u a, titleOf a, priorityOf a) | a.
      1 \<le> spec_unlockCount grants u a}"
  have S: "set (js_sort (compareRanked lc) ?xs) = ?S"
    unfolding set_js_sort by (rule ranked_set)
  have res: "resolveTopAchievementTitle lc (userAchievementCounts grants u) =
    (case js_sort (compareRanked lc) ?xs of [] \<Rightarrow> None
     | (achievementId', count', title, priority) # _ \<Rightarrow> Some title)"
    by (simp add: resolveTopAchievementTitle_def Let_def)
  show "(\<forall>g\<in>set grants. userId g \<noteq> u) \<longrightarrow>
           resolveTopAchievementTitle lc (userAchievementCounts grants u) = None"
  proof
    assume "\<forall>g\<in>set grants. userId g \<noteq> u"
    then have "?S = {}" using no_grants_no_counts [of grants u] by simp
    with S have "js_sort (compareRanked lc) ?xs = []" by simp
    then show "resolveTopAchievementTitle lc (userAchievementCounts grants u) = None"
      unfolding res by simp
  qed
  show "(\<exists>g\<in>set grants. userId g = u) \<longrightarrow>
           (\<exists>best. 1 \<le> spec_unlockCount grants u best \<and>
              resolveTopAchievementTitle lc (userAchievementCounts grants u) = Some (titleOf best) \<and>
              (\<forall>b. 1 \<le> spec_unlockCount grants u b \<longrightarrow>
                 spec_outranks lc (spec_unlockCount grants u) best b))"
  proof
    assume "\<exists>g\<in>set grants. userId g = u"
    then obtain g where g: "g \<in> set grants" "userId g = u" by blast
    from some_grant_some_count [OF g] have "?S \<noteq> {}" by blast
    with S obtain x rest' where xs: "js_sort (compareRanked lc) ?xs = x # rest'"
      by (cases "js_sort (compareRanked lc) ?xs") auto
    with S have "x \<in> ?S" by (metis list.set_intros(1))
    then obtain best where best: "x = (best, spec_unlockCount grants u best, titleOf best,
        priorityOf best)" "1 \<le> spec_unlockCount grants u best"
      by blast
    have title: "resolveTopAchievementTitle lc (userAchievementCounts grants u) = Some (titleOf best)"
      unfolding res xs best(1) by simp
    have srt: "\<forall>y\<in>set rest'. ranked_le lc x y"
      using sorted_ranked [OF lc, of ?xs] unfolding xs by simp
    have "spec_outranks lc (spec_unlockCount grants u) best b"
      if b: "1 \<le> spec_unlockCount grants u b" for b
    proof -
      let ?y = "(b, spec_unlockCount grants u b, titleOf b, priorityOf b)"
      from b have "?y \<in> ?S" by blast
      with S xs have "?y = x \<or> ?y \<in> set rest'" by (metis set_ConsD)
      then have "ranked_le lc x ?y"
        using srt ranked_le_refl [OF lc, of x] by auto
      then show ?thesis
        unfolding best(1) ranked_le_def spec_outranks_def by simp
    qed
    with best(2) title show "\<exists>best. 1 \<le> spec_unlockCount grants u best \<and>
              resolveTopAchievementTitle lc (userAchievementCounts grants u) = Some (titleOf best) \<and>
              (\<forall>b. 1 \<le> spec_unlockCount grants u b \<longrightarrow>
                 spec_outranks lc (spec_unlockCount grants u) best b)"
      by blast
  qed
qed

lemma spec_unlockCount_mset:
  assumes "mset grants' = mset grants"
  shows "spec_unlockCount grants' u a = spec_unlockCount grants u a"
proof -
  have "mset (filter (\<lambda>g. userId g = u \<and> achievementId g = a) grants') =
        mset (filter (\<lambda>g. userId g = u \<and> achievementId g = a) grants)"
    using assms by (simp only: mset_filter)
  then have "length (filter (\<lambda>g. userId g = u \<and> achievementId g = a) grants') =
        length (filter (\<lambda>g. userId g = u \<and> achievementId g = a) grants)"
    by (metis size_mset)
  then show ?thesis by (simp add: spec_unlockCount_def)
qed

lemma fallback_lookup:
  assumes "u \<in> set userIds"
    and "resolveComboHonorTitle (userAchievementCounts grants u)
           (userWeeklyFortyContextKeys grants u) = None"
  shows "map_get (resolveHonorTitlesByUserId lc userIds grants) u =
           Some (resolveTopAchievementTitle lc (userAchievementCounts grants u))"
  using assms by (simp add: resolveHonorTitlesByUserId_lookup resolveHonorTitle_def)

lemma codeCompare_antisym:
  "codeCompare a b \<le> 0 \<Longrightarrow> codeCompare b a \<le> 0 \<Longrightarrow> a = b"
proof (induction a b rule: codeCompare.induct)
  case (4 x xs y ys)
  from "4.prems" have "(of_char x :: nat) = of_char y" "codeCompare xs ys \<le> 0"
    "codeCompare ys xs \<le> 0"
    unfolding codeCompare_Cons_le by auto
  with "4.IH" show ?case by simp
qed simp_all

lemma example_fallback_values:
  "resolveComboHonorTitle (userAchievementCounts example_streak4 8)
     (userWeeklyFortyContextKeys example_streak4 8) = None"
  "resolveComboHonorTitle (userAchievementCounts example_streak4 9)
     (userWeeklyFortyContextKeys example_streak4 9) = None"
  "resolveComboHonorTitle (userAchievementCounts (rev example_streak4) 8)
     (userWeeklyFortyContextKeys (rev example_streak4) 8) = None"
  "map_get (resolveHonorTitlesByUserId codeCompare [7, 8, 9] example_streak4) 8
     = Some (Some ''Solo Blade'')"
  by code_simp+

subsection \<open>Backfill: bucket keys do not collide\<close>

lemma digit_cases: "d < 10 \<Longrightarrow> d = 0 \<or> d = 1 \<or> d = 2 \<or> d = 3 \<or> d = 4 \<or> d = 5 \<or> d = 6 \<or> d = 7 \<or>
    d = 8 \<or> d = (9::nat)"
  by arith


lemma digitChar_not_special:
  "d < 10 \<Longrightarrow> digitChar d \<noteq> CHR '':'' \<and> digitChar d \<noteq> CHR ''-''"
  by (drule digit_cases) (auto simp: digitChar_def)


lemma decimalNat_chars:
  "c \<in> set (decimalNat n) \<Longrightarrow> c \<noteq> CHR '':'' \<and> c \<noteq> CHR ''-''"
proof (induction n rule: decimalNat.induct)
  case (1 n)
  show ?case
  proof (cases "n < 10")
    case True
    with "1.prems" have "c = digitChar n" by (subst (asm) decimalNat.simps) simp
    with True show ?thesis using digitChar_not_special by simp
  next
    case False
    with "1.prems" have "c \<in> set (decimalNat (n div 10)) \<or> c = digitChar (n mod 10)"
      by (subst (asm) decimalNat.simps) auto
    then show ?thesis
    proof
      assume "c \<in> set (decimalNat (n div 10))"
      with False "1.IH" show ?thesis by simp
    next
      assume "c = digitChar (n mod 10)"
      then show ?thesis using digitChar_not_special [of "n mod 10"] by simp
    qed
  qed
qed








subsection \<open>Backfill: the loop over the daily rows\<close>








subsection \<open>Backfill: buckets and awards\<close>









subsection \<open>formatDuration\<close>

lemma formatDuration_examples:
  "formatDuration (Finite 0) = ''0m''" "formatDuration (Finite 59) = ''1m''"
  "formatDuration (Finite 3600) = ''1h''" "formatDuration (Finite 3660) = ''1h 1m''"
  by code_simp+

lemma decimalNat_0: "decimalNat 0 = ''0''"
  by (subst decimalNat.simps) (simp add: digitChar_def)

lemma js_String_0: "js_String 0 = ''0''"
  by (simp add: js_String_def decimalNat_0)

lemma js_String_nonneg: "0 \<le> n \<Longrightarrow> CHR ''-'' \<notin> set (js_String n)"
  using decimalNat_chars by (auto simp: js_String_def)

lemma floor_half: "\<lfloor>(1 :: rat) / 2\<rfloor> = 0"
  by (simp add: floor_eq_iff)

lemma formatDuration_not_finite:
  "formatDuration NaN = ''0m''" "formatDuration PosInfinity = ''0m''"
  "formatDuration NegInfinity = ''0m''"
  by (simp_all add: formatDuration_def js_String_0 floor_half)

lemma formatDuration_negative: "s < 0 \<Longrightarrow> formatDuration (Finite s) = ''0m''"
  by (simp add: formatDuration_def js_String_0 max_def floor_half)

lemma totalMinutes_nonneg: "0 \<le> s \<Longrightarrow> 0 \<le> \<lfloor>(s :: rat) / 60 + 1 / 2\<rfloor>"
  by simp

subsection \<open>The daily leaderboard\<close>





lemma set_uniq [simp]: "set (uniq xs) = set xs"
  by (induction xs) auto


lemma map_of_from_rows:
  "map_of (foldl (\<lambda>m (k, v). map_set m k v) m0 (map (\<lambda>u. (key u, u)) us)) i =
     (case find (\<lambda>u. key u = i) (rev us) of None \<Rightarrow> map_of m0 i | Some u \<Rightarrow> Some u)"
  by (induction us arbitrary: m0 rule: rev_induct) (auto simp: map_of_map_set)

lemma map_get_from_rows:
  "map_get (map_from_pairs (map (\<lambda>u. (key u, u)) us)) = (\<lambda>i. find (\<lambda>u. key u = i) (rev us))"
  unfolding map_get_def map_from_pairs_def
  by (rule ext) (simp add: map_of_from_rows split: option.splits)

lemma find_SomeD: "find P xs = Some x \<Longrightarrow> P x \<and> x \<in> set xs"
  by (induction xs) (auto split: if_splits)


lemma leaderboardUsers_rows:
  "set (leaderboardUsers store config) \<subseteq> set (getUsersByIds store (leaderboardUserIds store config))"
proof
  fix u assume "u \<in> set (leaderboardUsers store config)"
  then obtain j where
    "find (\<lambda>u. UserRow.id' u = j) (rev (getUsersByIds store (leaderboardUserIds store config)))
       = Some u"
    by (auto simp: leaderboardUsers_def Let_def map_get_from_rows)
  then show "u \<in> set (getUsersByIds store (leaderboardUserIds store config))"
    using find_SomeD by fastforce
qed


subsection \<open>C6: order of the leaderboard\<close>

text \<open>
  Claim C6. For every input list the output of \<open>computeLeaderboard\<close> is a permutation of the
  input that is ordered by status rank (ok = 0, private = 1, not_found = 2, error = 3)
  ascending, then by \<open>totalSeconds\<close> descending, then by \<open>username\<close> ascending under
  \<open>localeCompare\<close> (assumed consistent, as a comparator must be). Hence every entry that is
  not ok stands after every ok entry, whatever its \<open>totalSeconds\<close>, and has no rank.
\<close>

theorem computeLeaderboard_order:
  "statusOrder status_ok = 0 \<and> statusOrder status_private = 1 \<and>
   statusOrder status_not_found = 2 \<and> statusOrder status_error = 3 \<and>
   mset (map DailyStat.truncate (computeLeaderboard lc stats self)) = mset stats \<and>
   (consistent_comparator lc \<longrightarrow>
      sorted_wrt (spec_order lc) (computeLeaderboard lc stats self)) \<and>
   (\<forall>i j. i < length (computeLeaderboard lc stats self) \<and>
          j < length (computeLeaderboard lc stats self) \<and>
          status (computeLeaderboard lc stats self ! i) = status_ok \<and>
          status (computeLeaderboard lc stats self ! j) \<noteq> status_ok \<longrightarrow> i < j) \<and>
   (\<forall>e \<in> set (computeLeaderboard lc stats self). status e \<noteq> status_ok \<longrightarrow> rank e = None)"
proof -
  have "mset (map DailyStat.truncate (computeLeaderboard lc stats self)) = mset stats"
    by (simp add: computeLeaderboard_truncate sortStats_def mset_js_sort)
  moreover have "consistent_comparator lc \<longrightarrow>
      sorted_wrt (spec_order lc) (computeLeaderboard lc stats self)"
    using sorted_spec_computeLeaderboard by blast
  moreover have "\<forall>i j. i < length (computeLeaderboard lc stats self) \<and>
          j < length (computeLeaderboard lc stats self) \<and>
          status (computeLeaderboard lc stats self ! i) = status_ok \<and>
          status (computeLeaderboard lc stats self ! j) \<noteq> status_ok \<longrightarrow> i < j"
    using ok_before_unranked by blast
  moreover have "\<forall>e \<in> set (computeLeaderboard lc stats self).
      status e \<noteq> status_ok \<longrightarrow> rank e = None"
    using rank_unranked by blast
  ultimately show ?thesis by (simp add: statusOrder_def)
qed

theorem computeLeaderboard_order_witness:
  "consistent_comparator codeCompare \<and>
   sorted_wrt (spec_order codeCompare) (computeLeaderboard codeCompare example_mixed ''mo'') \<and>
   map username (computeLeaderboard codeCompare example_mixed ''mo'')
     = [''amy'', ''mo'', ''ben'', ''dena''] \<and>
   map status (computeLeaderboard codeCompare example_mixed ''mo'')
     = [status_ok, status_ok, status_ok, status_private] \<and>
   rank (last (computeLeaderboard codeCompare example_mixed ''mo'')) = None"
proof -
  let ?out = "computeLeaderboard codeCompare example_mixed ''mo''"
  note th = computeLeaderboard_order [of codeCompare example_mixed "''mo''"]
  have srt: "sorted_wrt (spec_order codeCompare) ?out"
    using th consistent_codeCompare by blast
  have "last ?out \<in> set ?out" "status (last ?out) \<noteq> status_ok"
    by (simp_all add: example_mixed_out mkStat_def DailyStat.defs LeaderboardEntry.defs)
  with th have "rank (last ?out) = None" by blast
  with srt consistent_codeCompare example_mixed_fields show ?thesis by simp
qed

subsection \<open>C1: ranks\<close>

text \<open>
  Claim C1. For every input list, \<open>computeLeaderboard\<close> gives the ok entries of the sorted
  output, which are its first positions, competition ranks: an ok entry whose \<open>totalSeconds\<close>
  equals that of the entry before it shares that entry's rank, and an ok entry that is first or
  differs from the entry before it gets its 1-indexed position (the "1,1,3" scheme); except that
  when every ok entry has \<open>totalSeconds = 0\<close>, each ok entry gets its 1-indexed position
  (1, 2, 3, ...).
\<close>

theorem computeLeaderboard_ranks:
  fixes lc stats self
  defines "out \<equiv> computeLeaderboard lc stats self"
  defines "allZero \<equiv> (\<exists>s\<in>set stats. status s = status_ok) \<and>
                      (\<forall>s\<in>set stats. status s = status_ok \<longrightarrow> totalSeconds s = 0)"
  shows "\<forall>i < length out. status (out ! i) = status_ok \<longrightarrow>
           (\<forall>j \<le> i. status (out ! j) = status_ok) \<and>
           rank (out ! i) =
             (if allZero then Some (i + 1)
              else if i = 0 \<or> totalSeconds (out ! (i - 1)) \<noteq> totalSeconds (out ! i)
                then Some (i + 1)
              else rank (out ! (i - 1)))"
proof (intro allI impI)
  fix i
  assume i: "i < length out" and ok: "status (out ! i) = status_ok"
  from computeLeaderboard_walk [of lc stats self] obtain ss
    where walk: "out = rankWalk allZero ss 0 None 0 (sortStats lc stats)"
    unfolding out_def allZero_def by blast
  let ?xs = "sortStats lc stats"
  have len: "length out = length ?xs" "length ?xs = length stats"
    by (simp_all add: walk length_rankWalk length_sortStats)
  have pre: "\<forall>j \<le> i. status (out ! j) = status_ok"
    using ok_prefix i ok unfolding out_def by blast
  have st: "\<And>j. j \<le> i \<Longrightarrow> status (?xs ! j) = status_ok"
    using pre i len nth_computeLeaderboard(1) [of _ stats lc self] unfolding out_def
    by (metis le_less_trans)
  have tot: "\<And>j. j \<le> i \<Longrightarrow> totalSeconds (out ! j) = totalSeconds (?xs ! j)"
    using i len nth_computeLeaderboard(2) [of _ stats lc self] unfolding out_def
    by (metis le_less_trans)
  have rk: "\<And>j. j \<le> i \<Longrightarrow> rank (out ! j) = map rank out ! j"
    using i by simp
  have "rank (out ! i) =
      (if allZero then Some (i + 1)
       else if i = 0 \<or> totalSeconds (out ! (i - 1)) \<noteq> totalSeconds (out ! i)
         then Some (i + 1)
       else rank (out ! (i - 1)))"
  proof (cases allZero)
    case True
    have "map rank (rankWalk True ss 0 None 0 ?xs) ! i = Some (0 + i + 1)"
      using i len st [of i] by (intro rank_rankWalk_break) simp_all
    with True show ?thesis using rk [of i] walk by simp
  next
    case False
    show ?thesis
    proof (cases i)
      case 0
      with i len obtain x xs' where xs: "?xs = x # xs'" by (cases ?xs) auto
      with st [of 0] 0 have "status x = status_ok" by simp
      from rank_rankWalk_head [OF this, of ss 0 None 0 xs']
      have "map rank (rankWalk False ss 0 None 0 ?xs) ! 0 = Some 1"
        by (simp add: xs)
      with False 0 show ?thesis using rk [of 0] walk by simp
    next
      case (Suc k)
      have "map rank (rankWalk False ss 0 None 0 ?xs) ! Suc k =
        (if totalSeconds (?xs ! Suc k) \<noteq> totalSeconds (?xs ! k) then Some (0 + k + 2)
         else map rank (rankWalk False ss 0 None 0 ?xs) ! k)"
        using i len st [of k] st [of "Suc k"] Suc by (intro rank_rankWalk_step) simp_all
      then show ?thesis
        using False Suc rk [of i] rk [of k] tot [of i] tot [of k] walk by auto
    qed
  qed
  with pre show "(\<forall>j \<le> i. status (out ! j) = status_ok) \<and>
           rank (out ! i) =
             (if allZero then Some (i + 1)
              else if i = 0 \<or> totalSeconds (out ! (i - 1)) \<noteq> totalSeconds (out ! i)
                then Some (i + 1)
              else rank (out ! (i - 1)))"
    by blast
qed

theorem computeLeaderboard_ranks_witness:
  "length (computeLeaderboard codeCompare example_ties ''mo'') = 3 \<and>
   status (computeLeaderboard codeCompare example_ties ''mo'' ! 1) = status_ok \<and>
   status (computeLeaderboard codeCompare example_ties ''mo'' ! 2) = status_ok \<and>
   rank (computeLeaderboard codeCompare example_ties ''mo'' ! 1)
     = rank (computeLeaderboard codeCompare example_ties ''mo'' ! 0) \<and>
   rank (computeLeaderboard codeCompare example_ties ''mo'' ! 2) = Some 3 \<and>
   status (computeLeaderboard codeCompare example_idle ''mo'' ! 1) = status_ok \<and>
   rank (computeLeaderboard codeCompare example_idle ''mo'' ! 1) = Some 2"
proof -
  let ?out = "computeLeaderboard codeCompare example_ties ''mo''"
  let ?idle = "computeLeaderboard codeCompare example_idle ''mo''"
  have len: "length ?out = 3" "length ?idle = 3"
    by (simp_all add: length_computeLeaderboard example_ties_def example_idle_def)
  have st: "status (?out ! 1) = status_ok" "status (?out ! 2) = status_ok"
    using len nth_map [of 1 ?out status] nth_map [of 2 ?out status]
    by (simp_all add: example_ties_fields)
  have tot: "totalSeconds (?out ! 0) = 1200" "totalSeconds (?out ! 1) = 1200"
    "totalSeconds (?out ! 2) = 900"
    using len nth_map [of 0 ?out totalSeconds] nth_map [of 1 ?out totalSeconds]
      nth_map [of 2 ?out totalSeconds]
    by (simp_all add: example_ties_fields)
  have sti: "status (?idle ! 1) = status_ok"
    using len nth_map [of 1 ?idle status] by (simp add: example_idle_fields)
  have nz: "\<not> ((\<exists>s\<in>set example_ties. status s = status_ok) \<and>
      (\<forall>s\<in>set example_ties. status s = status_ok \<longrightarrow> totalSeconds s = 0))"
    by (simp add: example_ties_def mkStat_def)
  have az: "(\<exists>s\<in>set example_idle. status s = status_ok) \<and>
      (\<forall>s\<in>set example_idle. status s = status_ok \<longrightarrow> totalSeconds s = 0)"
    by (simp add: example_idle_def mkStat_def)
  have r1: "rank (?out ! 1) = rank (?out ! 0)"
    using computeLeaderboard_ranks [of codeCompare example_ties "''mo''", rule_format, of 1]
      len st nz tot by simp
  have r2: "rank (?out ! 2) = Some 3"
    using computeLeaderboard_ranks [of codeCompare example_ties "''mo''", rule_format, of 2]
      len st nz tot by simp
  have r3: "rank (?idle ! 1) = Some 2"
    using computeLeaderboard_ranks [of codeCompare example_idle "''mo''", rule_format, of 1]
      len sti az by simp
  from len st r1 r2 sti r3 show ?thesis by simp
qed

subsection \<open>C7: deltaSeconds\<close>

text \<open>
  Claim C7. For every input list and \<open>selfUsername\<close>, every entry of the output of
  \<open>computeLeaderboard\<close> has \<open>deltaSeconds\<close> equal to its \<open>totalSeconds\<close> minus the self
  seconds, where the self seconds are the \<open>totalSeconds\<close> of an input entry whose username is
  \<open>selfUsername\<close>, and 0 when the input has no such entry. When the usernames of the input
  are distinct this entry is the one found by a username match in the unsorted input. (With
  repeated usernames the code takes the first match of the sorted order.)
\<close>

theorem computeLeaderboard_delta:
  "(\<exists>selfSeconds.
      ((\<forall>s\<in>set stats. username s \<noteq> self) \<and> selfSeconds = 0 \<or>
       (\<exists>s\<in>set stats. username s = self \<and> totalSeconds s = selfSeconds)) \<and>
      (\<forall>e\<in>set (computeLeaderboard lc stats self).
         deltaSeconds e = totalSeconds e - selfSeconds)) \<and>
   (distinct (map username stats) \<longrightarrow>
      (\<forall>e\<in>set (computeLeaderboard lc stats self).
         deltaSeconds e = totalSeconds e - spec_selfSeconds stats self))"
proof (intro conjI impI)
  let ?f = "find (\<lambda>entry. username entry = self) (sortStats lc stats)"
  let ?ss = "case ?f of None \<Rightarrow> 0 | Some e \<Rightarrow> totalSeconds e"
  have "(\<forall>s\<in>set stats. username s \<noteq> self) \<and> ?ss = 0 \<or>
       (\<exists>s\<in>set stats. username s = self \<and> totalSeconds s = ?ss)"
  proof (cases ?f)
    case None
    then have "\<forall>s\<in>set stats. username s \<noteq> self"
      by (auto simp: find_None_iff set_sortStats)
    with None show ?thesis by simp
  next
    case (Some x)
    then have "x \<in> set stats" "username x = self"
      by (auto simp: find_Some_iff set_sortStats dest: nth_mem)
    with Some show ?thesis by auto
  qed
  moreover have "\<forall>e\<in>set (computeLeaderboard lc stats self).
         deltaSeconds e = totalSeconds e - ?ss"
    using deltaSeconds_entry by blast
  ultimately show "\<exists>selfSeconds.
      ((\<forall>s\<in>set stats. username s \<noteq> self) \<and> selfSeconds = 0 \<or>
       (\<exists>s\<in>set stats. username s = self \<and> totalSeconds s = selfSeconds)) \<and>
      (\<forall>e\<in>set (computeLeaderboard lc stats self).
         deltaSeconds e = totalSeconds e - selfSeconds)"
    by blast
next
  assume "distinct (map username stats)"
  then show "\<forall>e\<in>set (computeLeaderboard lc stats self).
         deltaSeconds e = totalSeconds e - spec_selfSeconds stats self"
    using deltaSeconds_entry [of _ lc stats self] selfSeconds_distinct [of stats self lc]
    by simp
qed

theorem computeLeaderboard_delta_witness:
  "distinct (map username example_mixed) \<and> spec_selfSeconds example_mixed ''mo'' = 1500 \<and>
   last (computeLeaderboard codeCompare example_mixed ''mo'')
     \<in> set (computeLeaderboard codeCompare example_mixed ''mo'') \<and>
   totalSeconds (last (computeLeaderboard codeCompare example_mixed ''mo'')) = 0 \<and>
   deltaSeconds (last (computeLeaderboard codeCompare example_mixed ''mo'')) = - 1500"
proof -
  let ?out = "computeLeaderboard codeCompare example_mixed ''mo''"
  have d: "distinct (map username example_mixed)"
    by (simp add: example_mixed_def mkStat_def)
  have s: "spec_selfSeconds example_mixed ''mo'' = 1500"
    by (simp add: spec_selfSeconds_def example_mixed_def mkStat_def)
  have m: "last ?out \<in> set ?out" "totalSeconds (last ?out) = 0"
    by (simp_all add: example_mixed_out mkStat_def DailyStat.defs LeaderboardEntry.defs)
  from computeLeaderboard_delta [of example_mixed "''mo''" codeCompare] d m(1)
  have "deltaSeconds (last ?out) = totalSeconds (last ?out) - spec_selfSeconds example_mixed ''mo''"
    by blast
  with d s m show ?thesis by simp
qed

subsection \<open>C2: the buckets of sliceLeaderboard\<close>

text \<open>
  Claim C2, as amended. For every input list, \<open>selfUsername\<close> and slice options, \<open>rest\<close>
  shares no username with \<open>podium\<close> or \<open>nearMe\<close>, every entry of the three buckets is an
  input entry, and when the usernames of the input are distinct the union of the three buckets
  is the full input set. \<open>podium\<close> and \<open>nearMe\<close> are both windows of the ranked list and may
  overlap: the set of picked usernames only keeps their entries out of \<open>rest\<close>.
\<close>

theorem sliceLeaderboard_partition:
  "username ` set (rest (sliceLeaderboard lc entries' self opts)) \<inter>
     (username ` set (podium (sliceLeaderboard lc entries' self opts)) \<union>
      username ` set (nearMe (sliceLeaderboard lc entries' self opts))) = {} \<and>
   set (podium (sliceLeaderboard lc entries' self opts)) \<union>
     set (nearMe (sliceLeaderboard lc entries' self opts)) \<union>
     set (rest (sliceLeaderboard lc entries' self opts)) \<subseteq> set entries' \<and>
   (distinct (map username entries') \<longrightarrow>
      set (podium (sliceLeaderboard lc entries' self opts)) \<union>
      set (nearMe (sliceLeaderboard lc entries' self opts)) \<union>
      set (rest (sliceLeaderboard lc entries' self opts)) = set entries')"
proof -
  let ?r = "sliceLeaderboard lc entries' self opts"
  note p = slice_parts [of lc entries' self opts]
  have disj: "username ` set (rest ?r) \<inter>
     (username ` set (podium ?r) \<union> username ` set (nearMe ?r)) = {}"
    by (subst p(3)) (auto simp: image_Un)
  have sub: "set (podium ?r) \<union> set (nearMe ?r) \<union> set (rest ?r) \<subseteq> set entries'"
    using p(1,2) by (subst p(3)) (auto simp: set_sortStats)
  have "set entries' \<subseteq> set (podium ?r) \<union> set (nearMe ?r) \<union> set (rest ?r)"
    if d: "distinct (map username entries')"
  proof
    fix e assume e: "e \<in> set entries'"
    show "e \<in> set (podium ?r) \<union> set (nearMe ?r) \<union> set (rest ?r)"
    proof (cases "username e \<in> username ` (set (podium ?r) \<union> set (nearMe ?r))")
      case True
      then obtain q where q: "q \<in> set (podium ?r) \<union> set (nearMe ?r)" "username q = username e"
        by (metis (no_types, lifting) imageE)
      with p(1,2) have "q \<in> set entries'" by auto
      with d e q(2) have "q = e"
        by (meson distinct_map inj_onD)
      with q(1) show ?thesis by simp
    next
      case False
      with e have "e \<in> set (rest ?r)"
        by (subst p(3)) (simp add: set_sortStats)
      then show ?thesis by simp
    qed
  qed
  with sub have "distinct (map username entries') \<longrightarrow>
      set (podium ?r) \<union> set (nearMe ?r) \<union> set (rest ?r) = set entries'"
    by blast
  with disj sub show ?thesis by blast
qed

text \<open>
  The claim as stated asks for pairwise disjoint buckets. On the input of the repository's own
  test, \<open>cora\<close> is in \<open>podium\<close> and in \<open>nearMe\<close>.
\<close>

theorem sliceLeaderboard_overlap_counterexample:
  "\<not> (username ` set (podium (sliceLeaderboard codeCompare example_slice ''mo''
          \<lparr>podiumCount = Some 3, aroundCount = Some 1\<rparr>)) \<inter>
       username ` set (nearMe (sliceLeaderboard codeCompare example_slice ''mo''
          \<lparr>podiumCount = Some 3, aroundCount = Some 1\<rparr>)) = {})"
proof -
  let ?r = "sliceLeaderboard codeCompare example_slice ''mo''
          \<lparr>podiumCount = Some 3, aroundCount = Some 1\<rparr>"
  have "''cora'' \<in> set (map username (podium ?r))" "''cora'' \<in> set (map username (nearMe ?r))"
    unfolding example_slice_out by simp_all
  then show ?thesis by auto
qed

theorem sliceLeaderboard_partition_witness:
  "distinct (map username example_slice) \<and>
   set (podium (sliceLeaderboard codeCompare example_slice ''mo''
          \<lparr>podiumCount = Some 3, aroundCount = Some 1\<rparr>)) \<union>
   set (nearMe (sliceLeaderboard codeCompare example_slice ''mo''
          \<lparr>podiumCount = Some 3, aroundCount = Some 1\<rparr>)) \<union>
   set (rest (sliceLeaderboard codeCompare example_slice ''mo''
          \<lparr>podiumCount = Some 3, aroundCount = Some 1\<rparr>)) = set example_slice"
proof -
  have d: "distinct (map username example_slice)"
    by (simp add: example_slice_def mkStat_def)
  with sliceLeaderboard_partition [of codeCompare example_slice "''mo''"
      "\<lparr>podiumCount = Some 3, aroundCount = Some 1\<rparr>"]
  show ?thesis by blast
qed

subsection \<open>C3: granting an achievement is idempotent\<close>

text \<open>
  Claim C3. For every state of the in-memory store (every state reached from the empty store by
  any history of grants) and every grant input, after \<open>grantAchievement\<close> has run, the store
  holds exactly one row for the tuple \<open>(userId, achievementId, contextKind, contextKey)\<close>; a
  second call for the same tuple, with any \<open>awardedAt\<close> and \<open>metadata\<close>, leaves the number of
  rows, their tuples and every other row as they are, and the one row of the tuple carries the
  \<open>awardedAt\<close> and \<open>metadata\<close> of the second call. The Prisma repository's upsert on the
  uniquely indexed table does the same: the second call changes no key of the table and
  overwrites \<open>awarded_at\<close> (and \<open>metadata\<close>, unless it is \<open>undefined\<close>).
\<close>

theorem grantAchievement_idempotent:
  fixes hist :: "'m AchievementGrantRecord list" and g :: "'m AchievementGrantRecord"
  defines "s1 \<equiv> grantAchievement (foldl grantAchievement [] hist) g"
  defines "g' \<equiv> \<lambda>a m. g\<lparr>awardedAt := a, AchievementGrantRecord.metadata := m\<rparr>"
  shows "length (filter (\<lambda>e. grantKey e = grantKey g) s1) = 1 \<and>
     filter (\<lambda>e. grantKey e = grantKey g) (grantAchievement s1 (g' a m)) =
       [\<lparr>userId = userId g, achievementId = achievementId g, contextKind = contextKind g,
         contextKey = contextKey g, awardedAt = a,
         metadata = (case m of None \<Rightarrow> None | Some v \<Rightarrow> v)\<rparr>] \<and>
     length (grantAchievement s1 (g' a m)) = length s1 \<and>
     map grantKey (grantAchievement s1 (g' a m)) = map grantKey s1 \<and>
     filter (\<lambda>e. grantKey e \<noteq> grantKey g) (grantAchievement s1 (g' a m)) =
       filter (\<lambda>e. grantKey e \<noteq> grantKey g) s1 \<and>
     distinct (map grantKey (grantAchievement s1 (g' a m))) \<and>
     (\<exists>m1. prisma_grantAchievement t g (grantKey g) = Some (awardedAt g, m1) \<and>
        dom (prisma_grantAchievement (prisma_grantAchievement t g) (g' a m)) =
          dom (prisma_grantAchievement t g) \<and>
        prisma_grantAchievement (prisma_grantAchievement t g) (g' a m) =
          (prisma_grantAchievement t g)
            (grantKey g \<mapsto> (a, case m of None \<Rightarrow> m1 | Some v \<Rightarrow> v)))"
proof -
  let ?s2 = "grantAchievement s1 (g' a m)"
  let ?r = "\<lparr>userId = userId g, achievementId = achievementId g, contextKind = contextKind g,
         contextKey = contextKey g, awardedAt = a,
         metadata = (case m of None \<Rightarrow> None | Some v \<Rightarrow> v)\<rparr>"
  have key': "grantKey (g' a m) = grantKey g"
    by (simp add: g'_def grantKey_def)
  have d1: "distinct (map grantKey s1)"
    unfolding s1_def by (intro distinct_grantAchievement distinct_history) simp
  have in1: "grantKey g \<in> grantKey ` set s1"
    unfolding s1_def by (rule key_in_grantAchievement)
  have one: "length (filter (\<lambda>e. grantKey e = grantKey g) s1) = 1"
    using d1 in1 by (rule filter_unique_key)
  from in1 key' have "grantKey (g' a m) \<in> grantKey ` set s1" by simp
  from grantAchievement_present [OF this] obtain k where k: "k < length s1"
    "grantKey (s1 ! k) = grantKey g" and eq: "?s2 = s1[k := ?r]"
    unfolding key' by (auto simp: g'_def)
  have keys: "map grantKey ?s2 = map grantKey s1"
    using in1 by (simp add: keys_grantAchievement key')
  have len: "length ?s2 = length s1" using eq by simp
  have d2: "distinct (map grantKey ?s2)" using d1 keys by simp
  have other: "filter (\<lambda>e. grantKey e \<noteq> grantKey g) ?s2 =
       filter (\<lambda>e. grantKey e \<noteq> grantKey g) s1"
    unfolding eq using k by (intro filter_other_update) (simp_all add: grantKey_def)
  have "grantKey g \<in> grantKey ` set ?s2"
    using keys in1 by (metis set_map)
  with d2 have "length (filter (\<lambda>e. grantKey e = grantKey g) ?s2) = 1"
    by (intro filter_unique_key)
  moreover have "?r \<in> set ?s2" unfolding eq using k(1) by (rule set_update_memI)
  moreover have "grantKey ?r = grantKey g" by (simp add: grantKey_def)
  ultimately have same: "filter (\<lambda>e. grantKey e = grantKey g) ?s2 = [?r]"
    by (intro singleton_filter)
  from prisma_grant_twice [where t = t and g = g and a = a and m = m] obtain m1 where
    p1: "prisma_grantAchievement t g (grantKey g) = Some (awardedAt g, m1)" and
    p2: "prisma_grantAchievement (prisma_grantAchievement t g) (g' a m) =
          (prisma_grantAchievement t g)
            (grantKey g \<mapsto> (a, case m of None \<Rightarrow> m1 | Some v \<Rightarrow> v))"
    unfolding g'_def by blast
  have "dom (prisma_grantAchievement (prisma_grantAchievement t g) (g' a m)) =
          dom (prisma_grantAchievement t g)"
    unfolding p2 using p1 by auto
  with p1 p2 have prisma: "\<exists>m1. prisma_grantAchievement t g (grantKey g) = Some (awardedAt g, m1) \<and>
        dom (prisma_grantAchievement (prisma_grantAchievement t g) (g' a m)) =
          dom (prisma_grantAchievement t g) \<and>
        prisma_grantAchievement (prisma_grantAchievement t g) (g' a m) =
          (prisma_grantAchievement t g)
            (grantKey g \<mapsto> (a, case m of None \<Rightarrow> m1 | Some v \<Rightarrow> v))"
    by blast
  from one same len keys other d2 prisma show ?thesis by blast
qed

theorem grantAchievement_idempotent_witness:
  "filter (\<lambda>e. grantKey e = grantKey example_grant)
     (grantAchievement
        (grantAchievement (foldl grantAchievement [] [example_other_grant]) example_grant)
        (example_grant\<lparr>awardedAt := 2000, AchievementGrantRecord.metadata := Some None\<rparr>)) =
     [\<lparr>userId = 1, achievementId = ''workweek-warrior-40h'', contextKind = weekly,
       contextKey = ''2024-W05'', awardedAt = 2000, metadata = None\<rparr>]"
  using grantAchievement_idempotent [where hist = "[example_other_grant]" and g = example_grant
      and a = 2000 and m = "Some None"]
  by (simp add: example_grant_def)

subsection \<open>C5: the streak combos come before the priority fallback\<close>



subsection \<open>C4: the priority fallback\<close>

text \<open>
  Claim C4. When no combo rule matches for a requested user, \<open>resolveHonorTitlesByUserId\<close>
  gives a user without grants no title (\<open>null\<close>), and gives a user with grants the title of
  an achievement \<open>best\<close> that the user has unlocked at least once and that outranks every
  achievement the user has unlocked: higher static priority, then higher unlock count, then the
  smaller achievement id under \<open>localeCompare\<close> (assumed consistent). The resolution is a
  function of its arguments, and it does not depend on the order of the grants either: when
  \<open>localeCompare\<close> separates distinct ids, any reordering of the grants gives the same title.
\<close>

theorem fallback_title:
  assumes lc: "consistent_comparator lc" and u: "u \<in> set userIds"
    and nc: "resolveComboHonorTitle (userAchievementCounts grants u)
               (userWeeklyFortyContextKeys grants u) = None"
  shows "((\<forall>g\<in>set grants. userId g \<noteq> u) \<longrightarrow>
            map_get (resolveHonorTitlesByUserId lc userIds grants) u = Some None) \<and>
         ((\<exists>g\<in>set grants. userId g = u) \<longrightarrow>
            (\<exists>best. 1 \<le> spec_unlockCount grants u best \<and>
               map_get (resolveHonorTitlesByUserId lc userIds grants) u
                 = Some (Some (titleOf best)) \<and>
               (\<forall>b. 1 \<le> spec_unlockCount grants u b \<longrightarrow>
                  spec_outranks lc (spec_unlockCount grants u) best b))) \<and>
         ((\<forall>a b. lc a b \<le> 0 \<and> lc b a \<le> 0 \<longrightarrow> a = b) \<and> mset grants' = mset grants \<and>
          resolveComboHonorTitle (userAchievementCounts grants' u)
             (userWeeklyFortyContextKeys grants' u) = None \<longrightarrow>
            map_get (resolveHonorTitlesByUserId lc userIds grants') u =
            map_get (resolveHonorTitlesByUserId lc userIds grants) u)"
proof (intro conjI impI)
  note look = fallback_lookup [OF u nc, of lc]
  assume "\<forall>g\<in>set grants. userId g \<noteq> u"
  with top_title(1) [OF lc, of grants u] look
  show "map_get (resolveHonorTitlesByUserId lc userIds grants) u = Some None" by simp
next
  note look = fallback_lookup [OF u nc, of lc]
  assume "\<exists>g\<in>set grants. userId g = u"
  with top_title(2) [OF lc, of grants u] show "\<exists>best. 1 \<le> spec_unlockCount grants u best \<and>
               map_get (resolveHonorTitlesByUserId lc userIds grants) u
                 = Some (Some (titleOf best)) \<and>
               (\<forall>b. 1 \<le> spec_unlockCount grants u b \<longrightarrow>
                  spec_outranks lc (spec_unlockCount grants u) best b)"
    unfolding look by simp
next
  assume a: "(\<forall>a b. lc a b \<le> 0 \<and> lc b a \<le> 0 \<longrightarrow> a = b) \<and> mset grants' = mset grants \<and>
          resolveComboHonorTitle (userAchievementCounts grants' u)
             (userWeeklyFortyContextKeys grants' u) = None"
  then have anti: "\<And>a b. lc a b \<le> 0 \<Longrightarrow> lc b a \<le> 0 \<Longrightarrow> a = b"
    and ms: "mset grants' = mset grants"
    and nc': "resolveComboHonorTitle (userAchievementCounts grants' u)
             (userWeeklyFortyContextKeys grants' u) = None"
    by blast+
  have cnt: "spec_unlockCount grants' u = spec_unlockCount grants u"
    using spec_unlockCount_mset [OF ms] by (simp add: fun_eq_iff)
  have sets: "set grants' = set grants" using ms by (metis set_mset_mset)
  have "resolveTopAchievementTitle lc (userAchievementCounts grants' u) =
        resolveTopAchievementTitle lc (userAchievementCounts grants u)"
  proof (cases "\<exists>g\<in>set grants. userId g = u")
    case False
    then show ?thesis
      using top_title(1) [OF lc, of grants u] top_title(1) [OF lc, of grants' u] sets by simp
  next
    case True
    from top_title(2) [OF lc, of grants u] True obtain best where
      b: "1 \<le> spec_unlockCount grants u best"
         "resolveTopAchievementTitle lc (userAchievementCounts grants u) = Some (titleOf best)"
         "\<forall>b. 1 \<le> spec_unlockCount grants u b \<longrightarrow>
            spec_outranks lc (spec_unlockCount grants u) best b"
      by blast
    from top_title(2) [OF lc, of grants' u] True sets obtain best' where
      b': "1 \<le> spec_unlockCount grants u best'"
         "resolveTopAchievementTitle lc (userAchievementCounts grants' u) = Some (titleOf best')"
         "\<forall>b. 1 \<le> spec_unlockCount grants u b \<longrightarrow>
            spec_outranks lc (spec_unlockCount grants u) best' b"
      unfolding cnt by blast
    from b(3) b'(1) have "spec_outranks lc (spec_unlockCount grants u) best best'" by blast
    moreover from b'(3) b(1) have "spec_outranks lc (spec_unlockCount grants u) best' best"
      by blast
    ultimately have "lc best best' \<le> 0" "lc best' best \<le> 0"
      unfolding spec_outranks_def by auto
    then have "best = best'" by (rule anti)
    with b(2) b'(2) show ?thesis by simp
  qed
  then show "map_get (resolveHonorTitlesByUserId lc userIds grants') u =
            map_get (resolveHonorTitlesByUserId lc userIds grants) u"
    unfolding fallback_lookup [OF u nc, of lc] fallback_lookup [OF u nc', of lc] by simp
qed

theorem fallback_title_witness:
  "consistent_comparator codeCompare \<and> (8::int) \<in> set [7, 8, 9] \<and>
   resolveComboHonorTitle (userAchievementCounts example_streak4 8)
     (userWeeklyFortyContextKeys example_streak4 8) = None \<and>
   (\<exists>g\<in>set example_streak4. userId g = 8) \<and>
   9 \<notin> set (map userId example_streak4) \<and>
   (\<exists>best. 1 \<le> spec_unlockCount example_streak4 8 best \<and>
      Some (Some ''Solo Blade'') = Some (Some (titleOf best)) \<and>
      (\<forall>b. 1 \<le> spec_unlockCount example_streak4 8 b \<longrightarrow>
         spec_outranks codeCompare (spec_unlockCount example_streak4 8) best b)) \<and>
   map_get (resolveHonorTitlesByUserId codeCompare [7, 8, 9] example_streak4) 9 = Some None \<and>
   map_get (resolveHonorTitlesByUserId codeCompare [7, 8, 9] (rev example_streak4)) 8
     = Some (Some ''Solo Blade'')"
proof -
  have u8: "(8::int) \<in> set [7, 8, 9]" and u9: "(9::int) \<in> set [7, 8, 9]" by simp_all
  have ex: "\<exists>g\<in>set example_streak4. userId g = 8" "\<forall>g\<in>set example_streak4. userId g \<noteq> 9"
    by (simp_all add: example_streak4_def mkGrant_def)
  have anti: "\<forall>a b. codeCompare a b \<le> 0 \<and> codeCompare b a \<le> 0 \<longrightarrow> a = b"
    using codeCompare_antisym by blast
  note t8 = fallback_title [OF consistent_codeCompare u8 example_fallback_values(1),
      of "rev example_streak4"]
  note t9 = fallback_title [OF consistent_codeCompare u9 example_fallback_values(2)]
  from t8 ex(1) have best: "\<exists>best. 1 \<le> spec_unlockCount example_streak4 8 best \<and>
      Some (Some ''Solo Blade'') = Some (Some (titleOf best)) \<and>
      (\<forall>b. 1 \<le> spec_unlockCount example_streak4 8 b \<longrightarrow>
         spec_outranks codeCompare (spec_unlockCount example_streak4 8) best b)"
    unfolding example_fallback_values(4) by blast
  from t9 ex(2) have none:
    "map_get (resolveHonorTitlesByUserId codeCompare [7, 8, 9] example_streak4) 9 = Some None"
    by blast
  have "mset (rev example_streak4) = mset example_streak4" by simp
  with t8 anti example_fallback_values(3)
  have "map_get (resolveHonorTitlesByUserId codeCompare [7, 8, 9] (rev example_streak4)) 8 =
        map_get (resolveHonorTitlesByUserId codeCompare [7, 8, 9] example_streak4) 8"
    by blast
  then have perm: "map_get (resolveHonorTitlesByUserId codeCompare [7, 8, 9]
      (rev example_streak4)) 8 = Some (Some ''Solo Blade'')"
    unfolding example_fallback_values(4) .
  from ex(2) have no9: "9 \<notin> set (map userId example_streak4)" by auto
  from consistent_codeCompare u8 example_fallback_values(1) ex(1) no9 best none perm
  show ?thesis by (intro conjI)
qed

subsection \<open>C9: weekly buckets rebuilt from the daily history\<close>




subsection \<open>C10: formatDuration is total and never negative\<close>

text \<open>
  Claim C10 (implicit). \<open>formatDuration\<close> returns a string for every JavaScript number. For
  \<open>NaN\<close>, both infinities and every negative number it returns "0m". For a finite number
  \<open>s \<ge> 0\<close> it rounds \<open>s / 60\<close> to the whole number of minutes \<open>m\<close> and returns "\<open>m\<close>m"
  below an hour, "\<open>h\<close>h" on a full hour and "\<open>h\<close>h \<open>m'\<close>m" otherwise, with
  \<open>h = m div 60\<close> and \<open>m' = m mod 60\<close>. No result contains a minus sign.
\<close>

theorem formatDuration_total:
  "((\<forall>s. seconds = Finite s \<longrightarrow> s < 0) \<longrightarrow> formatDuration seconds = ''0m'') \<and>
   (\<forall>s. seconds = Finite s \<and> 0 \<le> s \<longrightarrow>
      0 \<le> \<lfloor>s / 60 + 1 / 2\<rfloor> \<and>
      formatDuration seconds =
        (if \<lfloor>s / 60 + 1 / 2\<rfloor> < 60 then js_String \<lfloor>s / 60 + 1 / 2\<rfloor> @ ''m''
         else if \<lfloor>s / 60 + 1 / 2\<rfloor> mod 60 = 0
           then js_String (\<lfloor>s / 60 + 1 / 2\<rfloor> div 60) @ ''h''
         else js_String (\<lfloor>s / 60 + 1 / 2\<rfloor> div 60) @ ''h '' @
              js_String (\<lfloor>s / 60 + 1 / 2\<rfloor> mod 60) @ ''m'')) \<and>
   CHR ''-'' \<notin> set (formatDuration seconds)"
proof (intro conjI allI impI)
  assume "\<forall>s. seconds = Finite s \<longrightarrow> s < 0"
  then show "formatDuration seconds = ''0m''"
    by (cases seconds) (simp_all add: formatDuration_not_finite formatDuration_negative)
next
  fix s assume "seconds = Finite s \<and> 0 \<le> s"
  then show "0 \<le> \<lfloor>s / 60 + 1 / 2\<rfloor>" by simp
next
  fix s assume a: "seconds = Finite s \<and> 0 \<le> s"
  define m where "m = \<lfloor>s / 60 + 1 / 2\<rfloor>"
  from a have m: "0 \<le> m" unfolding m_def by simp
  then have d: "m div 60 = 0 \<longleftrightarrow> m < 60"
    by (auto simp: zdiv_eq_0_iff)
  from a have "formatDuration seconds =
        (if m div 60 = 0 then js_String (m mod 60) @ ''m''
         else if m mod 60 = 0 then js_String (m div 60) @ ''h''
         else js_String (m div 60) @ ''h '' @ js_String (m mod 60) @ ''m'')"
    unfolding m_def by (simp add: formatDuration_def Let_def max_def)
  also have "\<dots> = (if m < 60 then js_String m @ ''m''
         else if m mod 60 = 0 then js_String (m div 60) @ ''h''
         else js_String (m div 60) @ ''h '' @ js_String (m mod 60) @ ''m'')"
    using m d by simp
  finally show "formatDuration seconds =
        (if \<lfloor>s / 60 + 1 / 2\<rfloor> < 60 then js_String \<lfloor>s / 60 + 1 / 2\<rfloor> @ ''m''
         else if \<lfloor>s / 60 + 1 / 2\<rfloor> mod 60 = 0
           then js_String (\<lfloor>s / 60 + 1 / 2\<rfloor> div 60) @ ''h''
         else js_String (\<lfloor>s / 60 + 1 / 2\<rfloor> div 60) @ ''h '' @
              js_String (\<lfloor>s / 60 + 1 / 2\<rfloor> mod 60) @ ''m'')"
    unfolding m_def .
next
  define safe where "safe = (case seconds of Finite s \<Rightarrow> max 0 s | _ \<Rightarrow> 0)"
  define m where "m = \<lfloor>safe / 60 + 1 / 2\<rfloor>"
  have "0 \<le> safe" unfolding safe_def by (cases seconds) simp_all
  then have m0: "0 \<le> m" unfolding m_def by simp
  then have "0 \<le> m div 60" "0 \<le> m mod 60" by (simp_all add: pos_imp_zdiv_nonneg_iff)
  with m0 have "CHR ''-'' \<notin> set (js_String (m div 60))"
    "CHR ''-'' \<notin> set (js_String (m mod 60))" "CHR ''-'' \<notin> set (js_String m)"
    by (simp_all add: js_String_nonneg)
  then show "CHR ''-'' \<notin> set (formatDuration seconds)"
    unfolding formatDuration_def Let_def safe_def [symmetric] m_def [symmetric] by simp
qed

theorem formatDuration_total_witness:
  "formatDuration (Finite (- 5)) = ''0m'' \<and> formatDuration NaN = ''0m'' \<and>
   Finite 3660 = Finite 3660 \<and> (0 :: rat) \<le> 3660 \<and> formatDuration (Finite 3660) = ''1h 1m'' \<and>
   CHR ''-'' \<notin> set (formatDuration (Finite 3660))"
proof -
  have h1: "\<forall>s. Finite (- 5) = Finite s \<longrightarrow> s < 0" by simp
  have h2: "\<forall>s. NaN = Finite s \<longrightarrow> s < 0" by simp
  from formatDuration_total [of "Finite (- 5)"] h1
  have a: "formatDuration (Finite (- 5)) = ''0m''" by blast
  from formatDuration_total [of NaN] h2
  have b: "formatDuration NaN = ''0m''" by blast
  from formatDuration_total [of "Finite 3660"]
  have c: "CHR ''-'' \<notin> set (formatDuration (Finite 3660))" by blast
  from a b c formatDuration_examples(4) show ?thesis by simp
qed

subsection \<open>C8: one entry per competing user of the viewer's graph\<close>




end
